theory Spec2Isabelle
  imports Main "HOL-Library.Sublist"
begin

section \<open>Strings\<close>

text \<open>
  A Python \<open>str\<close> is a sequence of Unicode code points. A code point is modelled as a
  natural number and a string as a list of them, so that every response the completion
  service can return is a value of the model. String literals of the source are written
  \<open>ustr ''...''\<close>.
\<close>

type_synonym pychar = nat
type_synonym pystr = "pychar list"

abbreviation ustr :: "string \<Rightarrow> pystr" where
  "ustr s \<equiv> map of_char s"

text \<open>
  \<open>str.isspace\<close> on one character, which is also what \<open>\s\<close> matches in a \<open>str\<close>
  pattern: the code points CPython lists as whitespace.
\<close>

definition is_space :: "pychar \<Rightarrow> bool" where
  "is_space c \<longleftrightarrow>
     (9 \<le> c \<and> c \<le> 13) \<or> (28 \<le> c \<and> c \<le> 32) \<or> c = 133 \<or> c = 160 \<or> c = 5760 \<or>
     (8192 \<le> c \<and> c \<le> 8202) \<or> c = 8232 \<or> c = 8233 \<or> c = 8239 \<or> c = 8287 \<or> c = 12288"

text \<open>\<open>s.strip()\<close>: leading and trailing whitespace removed.\<close>

definition strip :: "pystr \<Rightarrow> pystr" where
  "strip s = rev (dropWhile is_space (rev (dropWhile is_space s)))"

text \<open>
  Exceptions are values. The first four are raised by the interpreter; \<open>OSError\<close> and
  \<open>JSONDecodeError\<close> by reading, parsing and writing files; \<open>ServiceError\<close> stands for
  whatever the completion client raises (network, authentication, a malformed answer),
  with its message.
\<close>

datatype exn =
  ValueError | AttributeError | TypeError | IndexError | OSError | JSONDecodeError
  | ServiceError pystr

text \<open>\<open>sub in s\<close> and \<open>s.index(sub)\<close>; the latter raises \<open>ValueError\<close> when there is none.\<close>

fun find_sub :: "pystr \<Rightarrow> pystr \<Rightarrow> nat option" where
  "find_sub sub [] = (if sub = [] then Some 0 else None)"
| "find_sub sub (c # cs) =
     (if prefix sub (c # cs) then Some 0 else map_option Suc (find_sub sub cs))"

definition contains :: "pystr \<Rightarrow> pystr \<Rightarrow> bool" where
  "contains sub s \<longleftrightarrow> find_sub sub s \<noteq> None"

definition py_index :: "pystr \<Rightarrow> pystr \<Rightarrow> exn + nat" where
  "py_index s sub = (case find_sub sub s of None \<Rightarrow> Inl ValueError | Some i \<Rightarrow> Inr i)"

section \<open>Regular expressions\<close>

text \<open>
  Python's \<open>re\<close> is a backtracking matcher. A pattern is modelled as a function from the
  text at the current position to the list of ways the pattern matches there, each a
  pair of the matched text and the text left, in the order in which the matcher tries
  them. A search takes the first way of the leftmost position that has one.
\<close>

type_synonym matcher = "pystr \<Rightarrow> (pystr \<times> pystr) list"

text \<open>A literal string.\<close>

definition lit :: "pystr \<Rightarrow> matcher" where
  "lit p s = (if prefix p s then [(p, drop (length p) s)] else [])"

text \<open>
  A literal character under \<open>re.IGNORECASE\<close>, for an ASCII pattern character \<open>c\<close>: the
  text character matches when its lowercase is the lowercase of \<open>c\<close> or one of the
  lowercase characters sharing its uppercase. Beyond the two ASCII cases these are
  U+0130 and U+0131 for \<open>i\<close>, U+017F for \<open>s\<close> and U+212A for \<open>k\<close>.
\<close>

definition ascii_lower :: "pychar \<Rightarrow> pychar" where
  "ascii_lower c = (if 65 \<le> c \<and> c \<le> 90 then c + 32 else c)"

definition is_ascii_alpha :: "pychar \<Rightarrow> bool" where
  "is_ascii_alpha c \<longleftrightarrow> (65 \<le> c \<and> c \<le> 90) \<or> (97 \<le> c \<and> c \<le> 122)"

definition ic_extra :: "pychar \<Rightarrow> pychar list" where
  "ic_extra l = (if l = 105 then [304, 305] else if l = 115 then [383]
                 else if l = 107 then [8490] else [])"

definition ic_match :: "pychar \<Rightarrow> pychar \<Rightarrow> bool" where
  "ic_match c x \<longleftrightarrow>
     (if is_ascii_alpha c
      then ascii_lower x = ascii_lower c \<or> x \<in> set (ic_extra (ascii_lower c))
      else x = c)"

definition lit_ic :: "pystr \<Rightarrow> matcher" where
  "lit_ic p s =
     (if length p \<le> length s \<and> list_all2 ic_match p (take (length p) s)
      then [(take (length p) s, drop (length p) s)] else [])"

text \<open>
  \<open>X*\<close> and \<open>X*?\<close> for a character class \<open>X\<close>: the greedy star tries the longest run
  first, the lazy star the empty one.
\<close>

fun star_greedy :: "(pychar \<Rightarrow> bool) \<Rightarrow> matcher" where
  "star_greedy p [] = [([], [])]"
| "star_greedy p (c # cs) =
     (if p c then map (\<lambda>(m, r). (c # m, r)) (star_greedy p cs) else []) @ [([], c # cs)]"

fun star_lazy :: "(pychar \<Rightarrow> bool) \<Rightarrow> matcher" where
  "star_lazy p [] = [([], [])]"
| "star_lazy p (c # cs) =
     ([], c # cs) # (if p c then map (\<lambda>(m, r). (c # m, r)) (star_lazy p cs) else [])"

text \<open>\<open>X?\<close> (greedy) and the sequence of two patterns.\<close>

definition opt :: "matcher \<Rightarrow> matcher" where
  "opt a s = a s @ [([], s)]"

definition seq :: "matcher \<Rightarrow> matcher \<Rightarrow> matcher" where
  "seq a b s = [(m1 @ m2, r2). (m1, r1) \<leftarrow> a s, (m2, r2) \<leftarrow> b r1]"

text \<open>The classes \<open>[\s\S]\<close> (any character) and \<open>.\<close> (any character but a newline).\<close>

definition any_char :: "pychar \<Rightarrow> bool" where
  "any_char c \<longleftrightarrow> True"

definition newline :: pychar where
  "newline = 10"

definition dot :: "pychar \<Rightarrow> bool" where
  "dot c \<longleftrightarrow> c \<noteq> newline"

text \<open>
  \<open>re.search\<close>: the first way to match at the leftmost position that has one (the end
  of the text is a position too). The result is whatever the pattern yields per way:
  for the code block pattern, its group 1.
\<close>

fun re_search :: "(pystr \<Rightarrow> 'a list) \<Rightarrow> pystr \<Rightarrow> 'a option" where
  "re_search m [] = (case m [] of [] \<Rightarrow> None | x # _ \<Rightarrow> Some x)"
| "re_search m (c # cs) = (case m (c # cs) of [] \<Rightarrow> re_search m cs | x # _ \<Rightarrow> Some x)"

text \<open>
  \<open>re.sub(pattern, '', s)\<close> for a pattern that starts with \<open>^\<close> and cannot match the
  empty text: without \<open>re.MULTILINE\<close> the anchor holds at position 0 only, so at most
  one match is removed, the one at the start of the text.
\<close>

definition re_sub_start :: "matcher \<Rightarrow> pystr \<Rightarrow> pystr" where
  "re_sub_start m s = (case m s of [] \<Rightarrow> s | (_, rest) # _ \<Rightarrow> rest)"

section \<open>The text extractor\<close>

definition fence :: pystr where
  "fence = ustr ''```''"

definition gherkin_tag :: pystr where
  "gherkin_tag = ustr ''gherkin''"

definition feature_tok :: pystr where
  "feature_tok = ustr ''Feature:''"

text \<open>
  The pattern \<^verbatim>\<open>```(?:gherkin)?([\s\S]*?)```\<close> at one position: group 1 of every way it
  matches, in the matcher's order.
\<close>

definition code_block_at :: "pystr \<Rightarrow> pystr list" where
  "code_block_at s =
     [g. (m1, r1) \<leftarrow> lit fence s, (m2, r2) \<leftarrow> opt (lit gherkin_tag) r1,
         (g, r3) \<leftarrow> star_lazy any_char r2, (m4, r4) \<leftarrow> lit fence r3]"

text \<open>The patterns \<^verbatim>\<open>^\s*PHRASE.*?\n\<close> under \<open>re.IGNORECASE\<close>, after the anchor.\<close>

definition preamble :: "pystr \<Rightarrow> matcher" where
  "preamble phrase =
     seq (star_greedy is_space) (seq (lit_ic phrase) (seq (star_lazy dot) (lit [newline])))"

definition certainly :: pystr where
  "certainly = ustr ''Certainly!''"

definition here_is :: pystr where
  "here_is = ustr ''Here is''"

definition below_is :: pystr where
  "below_is = ustr ''Below is''"

definition extract_gherkin_code :: "pystr \<Rightarrow> exn + pystr" where
  "extract_gherkin_code response =
     (case re_search code_block_at response of
        Some g \<Rightarrow> Inr (strip g)
      | None \<Rightarrow>
          if contains feature_tok response then
            (case py_index response feature_tok of
               Inl e \<Rightarrow> Inl e
             | Inr i \<Rightarrow> Inr (strip (drop i response)))
          else
            let response1 = re_sub_start (preamble certainly) response;
                response2 = re_sub_start (preamble here_is) response1;
                response3 = re_sub_start (preamble below_is) response2
            in Inr (strip response3))"

text \<open>
  Two notions of the specification, stated on the text alone. A response contains a
  fenced block when two triple backticks stand in it without overlapping; \<open>closers\<close>
  is the part of the code block pattern after its optional tag. A text is trimmed when
  it neither starts nor ends with whitespace.
\<close>

definition has_fenced_block :: "pystr \<Rightarrow> bool" where
  "has_fenced_block s \<longleftrightarrow> (\<exists>a b c. s = a @ fence @ b @ fence @ c)"

definition closers :: "pystr \<Rightarrow> pystr list" where
  "closers s = [g. (g, r3) \<leftarrow> star_lazy any_char s, (m4, r4) \<leftarrow> lit fence r3]"

definition trimmed :: "pystr \<Rightarrow> bool" where
  "trimmed r \<longleftrightarrow> r = [] \<or> (\<not> is_space (hd r) \<and> \<not> is_space (last r))"

section \<open>Values read from JSON\<close>

text \<open>
  What \<open>json.load\<close> returns: \<open>None\<close>, a \<open>bool\<close>, an \<open>int\<close>, a \<open>float\<close>, a \<open>str\<close>, a
  \<open>list\<close> or a \<open>dict\<close> whose keys are strings. A dict is an association list in
  insertion order, read with \<open>map_of\<close>. Nothing in the program computes with a float, so
  the type of floats is left open.
\<close>

typedecl pyfloat

datatype json =
  JNull | JBool bool | JInt int | JFloat pyfloat | JStr pystr
  | JArr "json list" | JObj "(pystr \<times> json) list"

text \<open>\<open>d.get(key, default)\<close>; a value that is not a dict has no \<open>get\<close>.\<close>

definition get_or :: "(pystr \<times> json) list \<Rightarrow> pystr \<Rightarrow> json \<Rightarrow> json" where
  "get_or kvs key dflt = (case map_of kvs key of None \<Rightarrow> dflt | Some v \<Rightarrow> v)"

definition dict_get :: "json \<Rightarrow> pystr \<Rightarrow> json \<Rightarrow> exn + json" where
  "dict_get d key dflt =
     (case d of
        JObj kvs \<Rightarrow> Inr (get_or kvs key dflt)
      | _ \<Rightarrow> Inl AttributeError)"

text \<open>
  Iteration, as \<open>enumerate\<close> does it: a list yields its elements, a string its
  characters, a dict its keys; nothing else is iterable.
\<close>

definition py_iter :: "json \<Rightarrow> exn + json list" where
  "py_iter v =
     (case v of
        JArr xs \<Rightarrow> Inr xs
      | JStr s \<Rightarrow> Inr (map (\<lambda>c. JStr [c]) s)
      | JObj kvs \<Rightarrow> Inr (map (\<lambda>(k, _). JStr k) kvs)
      | _ \<Rightarrow> Inl TypeError)"

text \<open>\<open>str\<close> of an integer, in decimal.\<close>

fun digits :: "nat \<Rightarrow> pystr" where
  "digits n = (if n < 10 then [48 + n] else digits (n div 10) @ [48 + n mod 10])"

declare digits.simps [simp del]

definition str_int :: "int \<Rightarrow> pystr" where
  "str_int i = (if i < 0 then 45 # digits (nat (- i)) else digits (nat i))"

text \<open>
  A replacement field \<open>{v}\<close> of an f-string is \<open>str(v)\<close>: a string is itself, an integer
  its decimal form; for every other value \<open>str\<close> is \<open>repr\<close>, which for a float, a list
  and a dict is the interpreter's (the parameter \<open>rp\<close>).
\<close>

fun py_str :: "(json \<Rightarrow> pystr) \<Rightarrow> json \<Rightarrow> pystr" where
  "py_str rp (JStr s) = s"
| "py_str rp (JInt i) = str_int i"
| "py_str rp JNull = ustr ''None''"
| "py_str rp (JBool b) = (if b then ustr ''True'' else ustr ''False'')"
| "py_str rp v = rp v"

text \<open>\<open>sep.join(xs)\<close>.\<close>

fun py_join :: "pystr \<Rightarrow> pystr list \<Rightarrow> pystr" where
  "py_join sep [] = []"
| "py_join sep [x] = x"
| "py_join sep (x # y # ys) = x @ sep @ py_join sep (y # ys)"

section \<open>The host\<close>

text \<open>
  The services the script takes from the interpreter, its libraries, the operating
  system and the completion service are parameters of the model, collected in one
  record: \<open>repr\<close> and \<open>json.dumps(_, indent=2)\<close>, \<open>json.load\<close> on a file's text, the
  \<open>pathlib\<close> operations, the checks and listings of the file system, and the chat
  completion call, which returns an answer and the service's next state. \<open>'p\<close> is the
  type of paths, \<open>'c\<close> the state of the service.
\<close>

record 'p fs =
  files :: "'p \<rightharpoonup> pystr"
  dirs :: "'p set"

datatype completion = Raises exn | Choices "pystr option list"

record request =
  model :: "pystr option"
  system_content :: pystr
  user_content :: pystr

record ('p, 'c) host =
  py_repr :: "json \<Rightarrow> pystr"
  json_dumps :: "json \<Rightarrow> pystr"
  json_loads :: "pystr \<Rightarrow> exn + json"
  path_join :: "'p \<Rightarrow> pystr \<Rightarrow> 'p"
  path_stem :: "'p \<Rightarrow> pystr"
  path_name :: "'p \<Rightarrow> pystr"
  path_str :: "'p \<Rightarrow> pystr"
  path_exists :: "'p fs \<Rightarrow> 'p \<Rightarrow> bool"
  mkdir_parents :: "'p \<Rightarrow> 'p fs \<Rightarrow> exn + 'p fs"
  glob_json :: "'p fs \<Rightarrow> 'p \<Rightarrow> 'p list"
  open_w_error :: "'p fs \<Rightarrow> 'p \<Rightarrow> exn option"
  create :: "'c \<Rightarrow> request \<Rightarrow> completion \<times> 'c"

section \<open>The prompt builder\<close>

text \<open>One element of the list comprehension of \<open>build_prompt\<close>, for the index \<open>idx\<close>.\<close>

definition format_step :: "('p, 'c) host \<Rightarrow> nat \<Rightarrow> json \<Rightarrow> exn + pystr" where
  "format_step h idx call =
     (case dict_get call (ustr ''step'') (JInt (int idx + 1)) of Inl e \<Rightarrow> Inl e | Inr step \<Rightarrow>
      case dict_get call (ustr ''name'') (JStr (ustr ''API Call'')) of Inl e \<Rightarrow> Inl e | Inr name \<Rightarrow>
      case dict_get call (ustr ''method'') (JStr (ustr ''GET'')) of Inl e \<Rightarrow> Inl e | Inr method \<Rightarrow>
      case dict_get call (ustr ''api_url'') (JStr []) of Inl e \<Rightarrow> Inl e | Inr api_url \<Rightarrow>
        Inr (ustr ''Step '' @ py_str (py_repr h) step @ ustr '': '' @ py_str (py_repr h) name @
             ustr '' ('' @ py_str (py_repr h) method @ ustr '' '' @ py_str (py_repr h) api_url @
             ustr '')''))"

fun format_steps :: "('p, 'c) host \<Rightarrow> nat \<Rightarrow> json list \<Rightarrow> exn + pystr list" where
  "format_steps h idx [] = Inr []"
| "format_steps h idx (call # calls) =
     (case format_step h idx call of Inl e \<Rightarrow> Inl e | Inr line \<Rightarrow>
      case format_steps h (Suc idx) calls of Inl e \<Rightarrow> Inl e | Inr lines \<Rightarrow> Inr (line # lines))"

text \<open>The fixed text of the prompt, between its replacement fields.\<close>

definition prompt_head :: pystr where
  "prompt_head = ustr ''\<newline>      Generate Gherkin code for the following multi-step API compliance test:\<newline>\<newline>      Test Description: ''"

definition prompt_code :: pystr where
  "prompt_code = ustr ''\<newline>      Test Code: ''"

definition prompt_workflow :: pystr where
  "prompt_workflow = ustr ''\<newline>\<newline>      Multi-Step Workflow:\<newline>      ''"

definition prompt_schema :: pystr where
  "prompt_schema = ustr ''\<newline>\<newline>      Expected Response Schema: ''"

definition prompt_tail :: pystr where
  "prompt_tail = ustr ''\<newline>\<newline>      IMPORTANT:\<newline>      - Respond ONLY with the raw Gherkin code.\<newline>      - No explanations, markdown formatting, or code blocks.\<newline>      - Start directly with '' @ [39] @ ustr ''Feature:'' @ [39] @ ustr ''\<newline>      - Include Scenario with Given, When, Then steps that describe this multi-step compliance test workflow\<newline>      - Focus on the business logic and compliance validation, not individual API details\<newline>    ''"

definition step_sep :: pystr where
  "step_sep = ustr ''\<newline>      ''"

definition build_prompt :: "('p, 'c) host \<Rightarrow> json \<Rightarrow> exn + pystr" where
  "build_prompt h test_data =
     (case dict_get test_data (ustr ''api_calls'') (JArr []) of Inl e \<Rightarrow> Inl e | Inr api_calls \<Rightarrow>
      case py_iter api_calls of Inl e \<Rightarrow> Inl e | Inr calls \<Rightarrow>
      case format_steps h 0 calls of Inl e \<Rightarrow> Inl e | Inr lines \<Rightarrow>
      let steps_summary = py_join step_sep lines in
      case dict_get test_data (ustr ''response_schema'') (JObj []) of Inl e \<Rightarrow> Inl e | Inr response_schema \<Rightarrow>
      case dict_get test_data (ustr ''test_description'') (JStr []) of Inl e \<Rightarrow> Inl e | Inr description \<Rightarrow>
      case dict_get test_data (ustr ''test_code'') (JStr []) of Inl e \<Rightarrow> Inl e | Inr code \<Rightarrow>
        Inr (prompt_head @ py_str (py_repr h) description @
             prompt_code @ py_str (py_repr h) code @
             prompt_workflow @ steps_summary @
             prompt_schema @ json_dumps h response_schema @
             prompt_tail))"

section \<open>The world of the script\<close>

text \<open>
  What the script reads and changes: the file system, the completion service, the
  requests sent to it so far, and the console. A console line is a printed text, or a
  text followed by \<open>str(e)\<close> of the exception \<open>e\<close> caught.
\<close>

datatype line = Print pystr | PrintExn pystr exn

record ('p, 'c) world =
  fsys :: "'p fs"
  llm :: 'c
  requests :: "request list"
  console :: "line list"

definition print :: "line \<Rightarrow> ('p, 'c) world \<Rightarrow> ('p, 'c) world" where
  "print l w = w\<lparr>console := console w @ [l]\<rparr>"

text \<open>
  The configuration read from the environment when the module is loaded: \<open>os.getenv\<close>
  gives \<open>None\<close> for a variable that is not set.
\<close>

record config =
  api_version :: "pystr option"
  endpoint :: "pystr option"
  api_model :: "pystr option"
  api_key :: "pystr option"

section \<open>The completion client\<close>

definition system_prompt :: pystr where
  "system_prompt = ustr ''You are a helpful assistant that generates Gherkin code for API testing. Respond ONLY with the Gherkin code, no explanations, no markdown formatting, just the raw Gherkin code.''"

definition failed_text :: pystr where
  "failed_text = ustr ''Failed to generate Gherkin code''"

definition error_generating :: pystr where
  "error_generating = ustr ''    Error generating Gherkin code: ''"

text \<open>
  \<open>generate_gherkin_with_llm\<close>: everything happens inside one \<open>try\<close>, whose handler
  prints the exception and returns \<open>None\<close>. The request carries the constant
  temperature 0.7 besides the fields modelled. \<open>x or y\<close> is \<open>y\<close> when \<open>x\<close> is \<open>None\<close> or
  the empty string.
\<close>

definition generate_gherkin_with_llm ::
    "('p, 'c) host \<Rightarrow> config \<Rightarrow> json \<Rightarrow> ('p, 'c) world \<Rightarrow> pystr option \<times> ('p, 'c) world" where
  "generate_gherkin_with_llm h cfg test_data w =
     (case build_prompt h test_data of
        Inl e \<Rightarrow> (None, print (PrintExn error_generating e) w)
      | Inr prompt \<Rightarrow>
          let req = \<lparr>model = api_model cfg, system_content = system_prompt, user_content = prompt\<rparr>;
              (response, llm') = create h (llm w) req;
              w1 = w\<lparr>llm := llm', requests := requests w @ [req]\<rparr>
          in case response of
               Raises e \<Rightarrow> (None, print (PrintExn error_generating e) w1)
             | Choices [] \<Rightarrow> (None, print (PrintExn error_generating IndexError) w1)
             | Choices (content # _) \<Rightarrow>
                 let generated_code =
                       (case content of
                          None \<Rightarrow> failed_text
                        | Some s \<Rightarrow> if s \<noteq> [] then s else failed_text)
                 in case extract_gherkin_code generated_code of
                      Inl e \<Rightarrow> (None, print (PrintExn error_generating e) w1)
                    | Inr gherkin_code \<Rightarrow> (Some gherkin_code, w1))"

section \<open>The platform walker\<close>

text \<open>
  Reading a definition: \<open>open\<close> fails on a path that is not a readable text file, then
  \<open>json.load\<close> parses the text. Writing: \<open>open(_, 'w')\<close> fails where the host says so
  and otherwise the file holds exactly the text written, whatever it held before.
\<close>

definition read_json :: "('p, 'c) host \<Rightarrow> 'p fs \<Rightarrow> 'p \<Rightarrow> exn + json" where
  "read_json h f p = (case files f p of None \<Rightarrow> Inl OSError | Some text \<Rightarrow> json_loads h text)"

definition write_text :: "('p, 'c) host \<Rightarrow> 'p \<Rightarrow> pystr \<Rightarrow> 'p fs \<Rightarrow> exn + 'p fs" where
  "write_text h p text f =
     (case open_w_error h f p of
        Some e \<Rightarrow> Inl e
      | None \<Rightarrow> Inr (f\<lparr>files := (files f)(p \<mapsto> text)\<rparr>))"

definition gherkin_dir :: "('p, 'c) host \<Rightarrow> 'p \<Rightarrow> pystr \<Rightarrow> 'p" where
  "gherkin_dir h base_dir platform = path_join h (path_join h base_dir (ustr ''gherkin'')) platform"

text \<open>The body of the \<open>try\<close> of the loop over the JSON files, for one file.\<close>

definition try_file ::
    "('p, 'c) host \<Rightarrow> config \<Rightarrow> 'p \<Rightarrow> pystr \<Rightarrow> 'p \<Rightarrow> ('p, 'c) world \<Rightarrow> exn \<times> ('p, 'c) world + ('p, 'c) world" where
  "try_file h cfg gdir platform json_file w =
     (case read_json h (fsys w) json_file of
        Inl e \<Rightarrow> Inl (e, w)
      | Inr test_data \<Rightarrow>
     (case dict_get test_data (ustr ''test_code'') (JStr (path_stem h json_file)) of
        Inl e \<Rightarrow> Inl (e, w)
      | Inr test_code \<Rightarrow>
          let w1 = print (Print (ustr ''  Processing '' @ py_str (py_repr h) test_code @ ustr ''...'')) w;
              (gherkin_content, w2) = generate_gherkin_with_llm h cfg test_data w1
          in case gherkin_content of
               None \<Rightarrow>
                 Inr (print (Print (ustr ''    Failed to generate Gherkin for '' @
                                    py_str (py_repr h) test_code)) w2)
             | Some content \<Rightarrow>
                 if content \<noteq> [] then
                   let gherkin_file = path_join h gdir (py_str (py_repr h) test_code @ ustr ''.gherkin'')
                   in case write_text h gherkin_file content (fsys w2) of
                        Inl e \<Rightarrow> Inl (e, w2)
                      | Inr f \<Rightarrow>
                          Inr (print (Print (ustr ''    Created gherkin/'' @ platform @ ustr ''/'' @
                                             path_name h gherkin_file))
                                 (w2\<lparr>fsys := f\<rparr>))
                 else
                   Inr (print (Print (ustr ''    Failed to generate Gherkin for '' @
                                      py_str (py_repr h) test_code)) w2)))"

text \<open>One round of the loop: the \<open>try\<close> and its \<open>except Exception\<close>.\<close>

definition process_file ::
    "('p, 'c) host \<Rightarrow> config \<Rightarrow> 'p \<Rightarrow> pystr \<Rightarrow> 'p \<Rightarrow> ('p, 'c) world \<Rightarrow> ('p, 'c) world" where
  "process_file h cfg gdir platform json_file w =
     (case try_file h cfg gdir platform json_file w of
        Inr w' \<Rightarrow> w'
      | Inl (e, w') \<Rightarrow>
          print (PrintExn (ustr ''  Error processing '' @ path_name h json_file @ ustr '': '') e) w')"

fun process_files ::
    "('p, 'c) host \<Rightarrow> config \<Rightarrow> 'p \<Rightarrow> pystr \<Rightarrow> 'p list \<Rightarrow> ('p, 'c) world \<Rightarrow> ('p, 'c) world" where
  "process_files h cfg gdir platform [] w = w"
| "process_files h cfg gdir platform (json_file # json_files) w =
     process_files h cfg gdir platform json_files (process_file h cfg gdir platform json_file w)"

text \<open>
  \<open>generate_gherkin_for_platform\<close>. Creating the output directory is outside every
  \<open>try\<close>: an exception there leaves the function.
\<close>

definition generate_gherkin_for_platform ::
    "('p, 'c) host \<Rightarrow> config \<Rightarrow> 'p \<Rightarrow> pystr \<Rightarrow> ('p, 'c) world \<Rightarrow> exn \<times> ('p, 'c) world + ('p, 'c) world" where
  "generate_gherkin_for_platform h cfg base_dir platform w =
     (let platform_path = path_join h base_dir platform in
      if \<not> path_exists h (fsys w) platform_path then
        Inr (print (Print (ustr ''  Platform '' @ platform @ ustr '' directory not found, skipping'')) w)
      else
        case mkdir_parents h (gherkin_dir h base_dir platform) (fsys w) of
          Inl e \<Rightarrow> Inl (e, w)
        | Inr f \<Rightarrow>
            let w1 = w\<lparr>fsys := f\<rparr>;
                json_files = glob_json h (fsys w1) platform_path
            in if json_files = [] then
                 Inr (print (Print (ustr ''  No JSON files found in '' @ platform)) w1)
               else
                 let w2 = process_files h cfg (gherkin_dir h base_dir platform) platform json_files w1
                 in Inr (print (Print (ustr ''  Processed '' @ str_int (int (length json_files)) @
                                       ustr '' tests in '' @ platform)) w2))"

section \<open>The entry point\<close>

text \<open>How the process ends: normally, by \<open>exit(n)\<close>, or with an exception nobody caught.\<close>

datatype ending = Finished | SystemExit int | Uncaught exn

text \<open>Truth of a value of the environment: \<open>None\<close> and the empty string are false.\<close>

definition truthy :: "pystr option \<Rightarrow> bool" where
  "truthy v \<longleftrightarrow> (case v of None \<Rightarrow> False | Some s \<Rightarrow> s \<noteq> [])"

fun run_platforms ::
    "('p, 'c) host \<Rightarrow> config \<Rightarrow> 'p \<Rightarrow> pystr list \<Rightarrow> ('p, 'c) world \<Rightarrow> ending \<times> ('p, 'c) world" where
  "run_platforms h cfg base_dir [] w = (Finished, w)"
| "run_platforms h cfg base_dir (platform # platforms) w =
     (let w1 = print (Print (ustr ''\<newline>Processing '' @ platform)) w in
      case generate_gherkin_for_platform h cfg base_dir platform w1 of
        Inl (e, w2) \<Rightarrow> (Uncaught e, w2)
      | Inr w2 \<Rightarrow> run_platforms h cfg base_dir platforms w2)"

definition main :: "('p, 'c) host \<Rightarrow> config \<Rightarrow> 'p \<Rightarrow> ('p, 'c) world \<Rightarrow> ending \<times> ('p, 'c) world" where
  "main h cfg base_dir w =
     (let w1 = print (Print (ustr ''Starting Gherkin feature generation using Azure OpenAI...'')) w;
          w2 = print (Print (ustr ''Base directory: '' @ path_str h base_dir @ ustr ''\<newline>'')) w1
      in if \<not> list_all truthy [api_key cfg, endpoint cfg, api_version cfg, api_model cfg] then
           let w3 = print (Print (ustr ''Error: Missing Azure OpenAI configuration!'')) w2;
               w4 = print (Print (ustr ''Please copy .env.example to .env and fill in your credentials.'')) w3
           in (SystemExit 1, w4)
         else
           let w3 = print (Print (ustr ''Azure OpenAI client initialized\<newline>'')) w2 in
           case run_platforms h cfg base_dir [ustr ''common'', ustr ''azure'', ustr ''aws''] w3 of
             (Finished, w4) \<Rightarrow>
               let w5 = print (Print (ustr ''\<newline>'' @ replicate 70 61)) w4;
                   w6 = print (Print (ustr ''Generation complete!'')) w5;
                   w7 = print (Print (replicate 70 61)) w6
               in (Finished, w7)
           | (e, w4) \<Rightarrow> (e, w4))"

section \<open>Notions of the specification and a host for the examples\<close>

text \<open>
  How a field of a record shows in the prompt: the text of its value when the field is
  present, and the given text when it is absent.
\<close>

definition render_or :: "('p, 'c) host \<Rightarrow> (pystr \<times> json) list \<Rightarrow> pystr \<Rightarrow> pystr \<Rightarrow> pystr" where
  "render_or h kvs key absent =
     (case map_of kvs key of None \<Rightarrow> absent | Some v \<Rightarrow> py_str (py_repr h) v)"

text \<open>The line of the workflow list for the step record \<open>c\<close> at the 1-based position \<open>n\<close>.\<close>

definition step_line :: "('p, 'c) host \<Rightarrow> nat \<Rightarrow> (pystr \<times> json) list \<Rightarrow> pystr" where
  "step_line h n c =
     ustr ''Step '' @ render_or h c (ustr ''step'') (str_int (int n)) @ ustr '': '' @
     render_or h c (ustr ''name'') (ustr ''API Call'') @ ustr '' ('' @
     render_or h c (ustr ''method'') (ustr ''GET'') @ ustr '' '' @
     render_or h c (ustr ''api_url'') [] @ ustr '')''"

text \<open>The name under which the artifact of a definition is stored.\<close>

definition artifact_name :: "('p, 'c) host \<Rightarrow> (pystr \<times> json) list \<Rightarrow> 'p \<Rightarrow> pystr" where
  "artifact_name h kvs json_file = render_or h kvs (ustr ''test_code'') (path_stem h json_file)"

text \<open>
  A small host for the examples. A path is the list of its parts; the only definition
  file holds a record with a test code; the service raises on its first call, answers
  without content on its second and with a feature afterwards.
\<close>

definition demo_dumps :: "json \<Rightarrow> pystr" where
  "demo_dumps v = (case v of JObj [] \<Rightarrow> ustr ''{}'' | JArr [] \<Rightarrow> ustr ''[]'' | _ \<Rightarrow> ustr ''null'')"

definition demo_record :: "(pystr \<times> json) list" where
  "demo_record = [(ustr ''test_code'', JStr (ustr ''TC001''))]"

definition demo_loads :: "pystr \<Rightarrow> exn + json" where
  "demo_loads text =
     (if text = ustr ''{\"test_code\": \"TC001\"}''
      then Inr (JObj demo_record)
      else Inl JSONDecodeError)"

definition demo_create :: "nat \<Rightarrow> request \<Rightarrow> completion \<times> nat" where
  "demo_create n req =
     (if n = 0 then (Raises (ServiceError (ustr ''Connection error.'')), Suc n)
      else if n = 1 then (Choices [None], Suc n)
      else (Choices [Some (ustr ''Feature: Login'')], Suc n))"

definition demo_host :: "(pystr list, nat) host" where
  "demo_host =
     \<lparr>py_repr = (\<lambda>v. ustr ''?''), json_dumps = demo_dumps, json_loads = demo_loads,
      path_join = (\<lambda>p s. p @ [s]), path_stem = (\<lambda>p. takeWhile (\<lambda>c. c \<noteq> 46) (last p)),
      path_name = last, path_str = concat \<circ> map ((#) 47),
      path_exists = (\<lambda>f p. p \<in> dirs f \<or> files f p \<noteq> None),
      mkdir_parents = (\<lambda>p f. Inr (f\<lparr>dirs := insert p (dirs f)\<rparr>)),
      glob_json = (\<lambda>f p. []), open_w_error = (\<lambda>f p. if p \<in> dirs f then Some OSError else None),
      create = demo_create\<rparr>"

definition demo_file :: "pystr list" where
  "demo_file = [ustr ''repo'', ustr ''azure'', ustr ''TC001.json'']"

definition demo_world :: "nat \<Rightarrow> (pystr list, nat) world" where
  "demo_world n =
     \<lparr>fsys = \<lparr>files = [demo_file \<mapsto> ustr ''{\"test_code\": \"TC001\"}''], dirs = {}\<rparr>,
      llm = n, requests = [], console = []\<rparr>"

definition demo_config :: config where
  "demo_config =
     \<lparr>api_version = Some (ustr ''2024-02-01''), endpoint = Some (ustr ''https://example.invalid''),
      api_model = Some (ustr ''gpt''), api_key = Some (ustr ''key'')\<rparr>"

definition demo_prompt :: pystr where
  "demo_prompt = prompt_head @ prompt_code @ ustr ''TC001'' @ prompt_workflow @ prompt_schema @
     ustr ''{}'' @ prompt_tail"

definition demo_steps :: json where
  "demo_steps = JArr (map JObj [[], [(ustr ''step'', JInt 7), (ustr ''name'', JStr (ustr ''Login'')),
     (ustr ''method'', JStr (ustr ''POST'')), (ustr ''api_url'', JStr (ustr ''/login''))]])"
section \<open>Properties of the text extractor\<close>

lemma dropWhile_hd_not: "dropWhile P xs \<noteq> [] \<Longrightarrow> \<not> P (hd (dropWhile P xs))"
  by (simp add: hd_dropWhile)

lemma dropWhile_rev_hd:
  assumes "xs \<noteq> []" "\<not> P (hd xs)" "dropWhile P (rev xs) \<noteq> []"
  shows "hd (rev (dropWhile P (rev xs))) = hd xs"
proof -
  obtain ys zs where s: "rev xs = ys @ zs" and d: "dropWhile P (rev xs) = zs" and "zs \<noteq> []"
    using assms(3) by (metis takeWhile_dropWhile_id)
  have "xs = rev zs @ rev ys" using s by (metis rev_append rev_rev_ident)
  then have "hd xs = hd (rev zs)" using \<open>zs \<noteq> []\<close> by simp
  then show ?thesis using d by simp
qed

lemma strip_trimmed: "trimmed (strip s)"
proof (cases "strip s = []")
  case True then show ?thesis by (simp add: trimmed_def)
next
  case False
  let ?a = "dropWhile is_space s"
  have ne: "dropWhile is_space (rev ?a) \<noteq> []" using False by (simp add: strip_def)
  have a_ne: "?a \<noteq> []"
  proof
    assume "?a = []"
    with ne show False by simp
  qed
  have l: "\<not> is_space (last (strip s))"
    using ne by (simp add: strip_def last_rev hd_dropWhile)
  have "\<not> is_space (hd ?a)" using a_ne by (simp add: hd_dropWhile)
  then have "\<not> is_space (hd (strip s))"
    using dropWhile_rev_hd[OF a_ne _ ne] by (simp add: strip_def)
  with l show ?thesis by (simp add: trimmed_def)
qed

lemma find_sub_contains_index:
  "contains sub s \<Longrightarrow> \<exists>i. py_index s sub = Inr i"
  by (auto simp: contains_def py_index_def)

lemma prefix_append_long: "length p \<le> length x \<Longrightarrow> prefix p (x @ y) = prefix p x"
proof
  assume l: "length p \<le> length x" and "prefix p (x @ y)"
  then have "p = take (length p) (x @ y)" by (metis append_eq_conv_conj prefix_def)
  also have "\<dots> = take (length p) x" using l by simp
  finally show "prefix p x" by (metis take_is_prefix)
next
  assume "prefix p x" then show "prefix p (x @ y)" by (simp add: prefix_prefix)
qed

lemma find_sub_Some_iff:
  "find_sub sub s = Some n \<longleftrightarrow>
     n \<le> length s \<and> prefix sub (drop n s) \<and> (\<forall>i<n. \<not> prefix sub (drop i s))"
proof (induction s arbitrary: n)
  case Nil
  then show ?case by auto
next
  case (Cons c cs)
  show ?case
  proof (cases "prefix sub (c # cs)")
    case True
    then show ?thesis by (cases n) auto
  next
    case False
    show ?thesis
    proof (cases n)
      case 0
      with False show ?thesis by simp
    next
      case (Suc k)
      have "(\<forall>i<Suc k. \<not> prefix sub (drop i (c # cs))) \<longleftrightarrow> (\<forall>i<k. \<not> prefix sub (drop i cs))"
        using False by (auto simp: less_Suc_eq_0_disj)
      with False Suc Cons.IH[of k] show ?thesis by auto
    qed
  qed
qed

lemma re_search_hit: "m s = x # xs \<Longrightarrow> re_search m s = Some x"
  by (cases s) auto

lemma re_search_skip:
  "(\<forall>i<length pre. m (drop i (pre @ s)) = []) \<Longrightarrow> re_search m (pre @ s) = re_search m s"
proof (induction pre)
  case Nil
  then show ?case by simp
next
  case (Cons c pre)
  have "m (drop 0 ((c # pre) @ s)) = []" using Cons.prems by blast
  then have a: "m (c # pre @ s) = []" by simp
  have "\<forall>i<length pre. m (drop i (pre @ s)) = []"
  proof (intro allI impI)
    fix i assume "i < length pre"
    then have "m (drop (Suc i) ((c # pre) @ s)) = []" using Cons.prems by auto
    then show "m (drop i (pre @ s)) = []" by simp
  qed
  then show ?case using Cons.IH a by simp
qed

lemma code_block_at_no_fence: "\<not> prefix fence s \<Longrightarrow> code_block_at s = []"
  by (simp add: code_block_at_def lit_def)

lemma closers_Nil: "closers [] = []"
  by (simp add: closers_def lit_def fence_def)

lemma closers_Cons:
  "closers (c # cs) = (if prefix fence (c # cs) then [[]] else []) @ map ((#) c) (closers cs)"
  apply (simp add: closers_def any_char_def lit_def)
  apply (simp add: map_concat comp_def case_prod_unfold cong: if_cong)
  done

lemma closers_first:
  "\<forall>i<length body. \<not> prefix fence (drop i (body @ fence @ post)) \<Longrightarrow>
     \<exists>rest. closers (body @ fence @ post) = body # rest"
proof (induction body)
  case Nil
  obtain c cs where e: "fence @ post = c # cs" by (auto simp: fence_def)
  have "prefix fence (fence @ post)" by simp
  then have "prefix fence (c # cs)" by (simp only: e)
  then have "closers (c # cs) = [] # map ((#) c) (closers cs)" by (simp add: closers_Cons)
  then show ?case by (simp add: e)
next
  case (Cons c body)
  have "\<not> prefix fence (drop 0 ((c # body) @ fence @ post))" using Cons.prems by blast
  then have a: "\<not> prefix fence (c # body @ fence @ post)" by simp
  have "\<forall>i<length body. \<not> prefix fence (drop i (body @ fence @ post))"
  proof (intro allI impI)
    fix i assume "i < length body"
    then have "\<not> prefix fence (drop (Suc i) ((c # body) @ fence @ post))" using Cons.prems by auto
    then show "\<not> prefix fence (drop i (body @ fence @ post))" by simp
  qed
  then obtain rest where "closers (body @ fence @ post) = body # rest" using Cons.IH by blast
  then show ?case using a by (simp add: closers_Cons)
qed

lemma code_block_at_fence:
  "code_block_at (fence @ r) = concat (map (\<lambda>(m2, r2). closers r2) (opt (lit gherkin_tag) r))"
  by (simp add: code_block_at_def closers_def lit_def)

lemma code_block_at_block:
  assumes tag: "tag = gherkin_tag \<or> (tag = [] \<and> \<not> prefix gherkin_tag body)"
    and close: "find_sub fence (body @ fence) = Some (length body)"
  shows "\<exists>rest. code_block_at (fence @ tag @ body @ fence @ post) = body # rest"
proof -
  have nf: "\<forall>i<length body. \<not> prefix fence (drop i (body @ fence @ post))"
  proof (intro allI impI)
    fix i assume i: "i < length body"
    then have "\<not> prefix fence (drop i (body @ fence))"
      using close by (simp add: find_sub_Some_iff)
    moreover have "length fence \<le> length (drop i body @ fence)" by simp
    ultimately show "\<not> prefix fence (drop i (body @ fence @ post))"
      using i prefix_append_long[of fence "drop i body @ fence" post] by simp
  qed
  obtain rest where c: "closers (body @ fence @ post) = body # rest"
    using closers_first[OF nf] by blast
  from tag show ?thesis
  proof
    assume "tag = gherkin_tag"
    then show ?thesis by (simp add: code_block_at_fence opt_def lit_def c)
  next
    assume t: "tag = [] \<and> \<not> prefix gherkin_tag body"
    have "\<not> prefix gherkin_tag (body @ fence @ post)"
    proof
      assume p: "prefix gherkin_tag (body @ fence @ post)"
      show False
      proof (cases "length gherkin_tag \<le> length body")
        case True
        then show False using p t prefix_append_long[of gherkin_tag body "fence @ post"] by simp
      next
        case False
        then have l: "length body < length gherkin_tag" by simp
        have "gherkin_tag ! length body = (body @ fence @ post) ! length body"
          using p l by (metis prefix_def nth_append)
        also have "\<dots> = 96" by (simp add: fence_def)
        finally have "96 \<in> set gherkin_tag" using l by (metis nth_mem)
        then show False by (simp add: gherkin_tag_def)
      qed
    qed
    then show ?thesis using t by (simp add: code_block_at_fence opt_def lit_def c)
  qed
qed

lemma re_search_None_iff:
  "re_search m s = None \<longleftrightarrow> (\<forall>i\<le>length s. m (drop i s) = [])"
proof (induction s)
  case Nil
  then show ?case by (auto split: list.splits)
next
  case (Cons c cs)
  have "(\<forall>i\<le>length (c # cs). m (drop i (c # cs)) = []) \<longleftrightarrow>
        m (c # cs) = [] \<and> (\<forall>i\<le>length cs. m (drop i cs) = [])"
  proof
    assume a: "\<forall>i\<le>length (c # cs). m (drop i (c # cs)) = []"
    have "m (drop 0 (c # cs)) = []" using a by blast
    moreover have "\<forall>i\<le>length cs. m (drop i cs) = []"
    proof (intro allI impI)
      fix i assume "i \<le> length cs"
      then have "m (drop (Suc i) (c # cs)) = []" using a by auto
      then show "m (drop i cs) = []" by simp
    qed
    ultimately show "m (c # cs) = [] \<and> (\<forall>i\<le>length cs. m (drop i cs) = [])" by simp
  next
    assume a: "m (c # cs) = [] \<and> (\<forall>i\<le>length cs. m (drop i cs) = [])"
    show "\<forall>i\<le>length (c # cs). m (drop i (c # cs)) = []"
    proof (intro allI impI)
      fix i assume "i \<le> length (c # cs)"
      then show "m (drop i (c # cs)) = []" using a by (cases i) auto
    qed
  qed
  with Cons show ?case by (auto split: list.splits)
qed

lemma closers_nonempty_iff: "closers s \<noteq> [] \<longleftrightarrow> (\<exists>b c. s = b @ fence @ c)"
proof (induction s)
  case Nil
  then show ?case by (simp add: closers_Nil fence_def)
next
  case (Cons x xs)
  have "(\<exists>b c. x # xs = b @ fence @ c) \<longleftrightarrow> prefix fence (x # xs) \<or> (\<exists>b c. xs = b @ fence @ c)"
  proof
    assume "\<exists>b c. x # xs = b @ fence @ c"
    then obtain b c where e: "x # xs = b @ fence @ c" by blast
    show "prefix fence (x # xs) \<or> (\<exists>b c. xs = b @ fence @ c)"
    proof (cases b)
      case Nil
      then show ?thesis using e by (simp add: prefix_def)
    next
      case (Cons y ys)
      then show ?thesis using e by auto
    qed
  next
    assume "prefix fence (x # xs) \<or> (\<exists>b c. xs = b @ fence @ c)"
    then show "\<exists>b c. x # xs = b @ fence @ c"
    proof
      assume "prefix fence (x # xs)"
      then obtain c where "x # xs = fence @ c" by (auto simp: prefix_def)
      then have "x # xs = [] @ fence @ c" by simp
      then show ?thesis by blast
    next
      assume "\<exists>b c. xs = b @ fence @ c"
      then obtain b c where "xs = b @ fence @ c" by blast
      then have "x # xs = (x # b) @ fence @ c" by simp
      then show ?thesis by blast
    qed
  qed
  with Cons show ?case by (auto simp: closers_Cons)
qed

lemma code_block_at_nonempty_iff:
  "code_block_at r \<noteq> [] \<longleftrightarrow> (\<exists>b c. r = fence @ b @ fence @ c)"
proof
  assume ne: "code_block_at r \<noteq> []"
  then have "prefix fence r" using code_block_at_no_fence by blast
  then obtain r1 where r: "r = fence @ r1" by (auto simp: prefix_def)
  have "closers r1 \<noteq> [] \<or> (prefix gherkin_tag r1 \<and> closers (drop (length gherkin_tag) r1) \<noteq> [])"
    using ne unfolding r code_block_at_fence by (auto simp: opt_def lit_def split: if_splits)
  then show "\<exists>b c. r = fence @ b @ fence @ c"
  proof
    assume "closers r1 \<noteq> []"
    then show ?thesis using r by (auto simp: closers_nonempty_iff)
  next
    assume a: "prefix gherkin_tag r1 \<and> closers (drop (length gherkin_tag) r1) \<noteq> []"
    then obtain r2 where r2: "r1 = gherkin_tag @ r2" by (auto simp: prefix_def)
    with a obtain b c where "r2 = b @ fence @ c" by (auto simp: closers_nonempty_iff)
    then have "r = fence @ (gherkin_tag @ b) @ fence @ c" using r r2 by simp
    then show ?thesis by blast
  qed
next
  assume "\<exists>b c. r = fence @ b @ fence @ c"
  then obtain b c where r: "r = fence @ b @ fence @ c" by blast
  then have "closers (b @ fence @ c) \<noteq> []" using closers_nonempty_iff by blast
  then show "code_block_at r \<noteq> []"
    unfolding r code_block_at_fence by (simp add: opt_def)
qed

lemma no_block_iff: "re_search code_block_at s = None \<longleftrightarrow> \<not> has_fenced_block s"
proof
  assume n: "re_search code_block_at s = None"
  show "\<not> has_fenced_block s"
  proof
    assume "has_fenced_block s"
    then obtain a b c where s: "s = a @ fence @ b @ fence @ c"
      by (auto simp: has_fenced_block_def)
    then have "drop (length a) s = fence @ b @ fence @ c" by simp
    then have "code_block_at (drop (length a) s) \<noteq> []"
      using code_block_at_nonempty_iff by blast
    moreover have "length a \<le> length s" using s by simp
    ultimately show False using n by (simp add: re_search_None_iff)
  qed
next
  assume n: "\<not> has_fenced_block s"
  have "\<forall>i\<le>length s. code_block_at (drop i s) = []"
  proof (intro allI impI)
    fix i assume "i \<le> length s"
    show "code_block_at (drop i s) = []"
    proof (rule ccontr)
      assume "code_block_at (drop i s) \<noteq> []"
      then obtain b c where "drop i s = fence @ b @ fence @ c"
        using code_block_at_nonempty_iff by blast
      then have "s = take i s @ fence @ b @ fence @ c" by (metis append_take_drop_id)
      then show False using n unfolding has_fenced_block_def by blast
    qed
  qed
  then show "re_search code_block_at s = None" by (simp add: re_search_None_iff)
qed

lemma find_sub_None:
  "find_sub sub s = None \<Longrightarrow> i \<le> length s \<Longrightarrow> \<not> prefix sub (drop i s)"
proof (induction s arbitrary: i)
  case Nil
  then show ?case by (auto split: if_splits)
next
  case (Cons c cs)
  then show ?case by (cases i) (auto split: if_splits)
qed

lemma contains_iff: "contains sub s \<longleftrightarrow> (\<exists>a b. s = a @ sub @ b)"
proof
  assume "contains sub s"
  then obtain n where "find_sub sub s = Some n" by (auto simp: contains_def)
  then have "prefix sub (drop n s)" by (simp add: find_sub_Some_iff)
  then obtain b where "drop n s = sub @ b" by (auto simp: prefix_def)
  then have "s = take n s @ sub @ b" by (metis append_take_drop_id)
  then show "\<exists>a b. s = a @ sub @ b" by blast
next
  assume "\<exists>a b. s = a @ sub @ b"
  then obtain a b where s: "s = a @ sub @ b" by blast
  show "contains sub s"
  proof (rule ccontr)
    assume "\<not> contains sub s"
    then have "find_sub sub s = None" by (simp add: contains_def)
    moreover have "length a \<le> length s" using s by simp
    ultimately have "\<not> prefix sub (drop (length a) s)" by (rule find_sub_None)
    then show False using s by simp
  qed
qed

lemma no_backtick_no_block: "96 \<notin> set s \<Longrightarrow> \<not> has_fenced_block s"
  by (auto simp: has_fenced_block_def fence_def)

lemma seq_hd:
  "a s = (m1, r1) # xs \<Longrightarrow> b r1 = (m2, r2) # ys \<Longrightarrow> \<exists>rest. seq a b s = (m1 @ m2, r2) # rest"
  by (simp add: seq_def)

lemma seq_empty:
  assumes "\<And>m1 r1. (m1, r1) \<in> set (a s) \<Longrightarrow> b r1 = []"
  shows "seq a b s = []"
  using assms by (auto simp: seq_def)

lemma star_greedy_hd:
  "\<forall>c\<in>set ws. p c \<Longrightarrow> r = [] \<or> \<not> p (hd r) \<Longrightarrow> \<exists>rest. star_greedy p (ws @ r) = (ws, r) # rest"
proof (induction ws)
  case Nil
  then show ?case by (cases r) auto
next
  case (Cons w ws)
  then obtain rest where "star_greedy p (ws @ r) = (ws, r) # rest" by auto
  then show ?case using Cons.prems by simp
qed

lemma star_greedy_rests:
  "(m', r') \<in> set (star_greedy p s) \<Longrightarrow> r' = dropWhile p s \<or> (r' \<noteq> [] \<and> p (hd r'))"
  by (induction s arbitrary: m') (auto split: if_splits)

lemma seq_star_lazy_Cons:
  "seq (star_lazy p) b (c # cs) =
     b (c # cs) @ (if p c then map (\<lambda>(m, r). (c # m, r)) (seq (star_lazy p) b cs) else [])"
  by (simp add: seq_def map_concat comp_def case_prod_unfold)

lemma line_rest:
  "newline \<notin> set body \<Longrightarrow>
     seq (star_lazy dot) (lit [newline]) (body @ newline # tail) = [(body @ [newline], tail)]"
proof (induction body)
  case Nil
  have "lit [newline] (newline # tail) = [([newline], tail)]" by (simp add: lit_def)
  moreover have "\<not> dot newline" by (simp add: dot_def)
  ultimately show ?case by (simp add: seq_star_lazy_Cons)
next
  case (Cons c body)
  then have "seq (star_lazy dot) (lit [newline]) (body @ newline # tail) = [(body @ [newline], tail)]"
    by simp
  moreover have n: "c \<noteq> newline" using Cons.prems by auto
  moreover have "lit [newline] (c # body @ newline # tail) = []" using n by (simp add: lit_def)
  moreover have "dot c" using n by (simp add: dot_def)
  ultimately show ?case by (simp add: seq_star_lazy_Cons)
qed

lemma lit_ic_hit:
  assumes "list_all2 ic_match phrase m"
  shows "lit_ic phrase (m @ r) = [(m, r)]"
proof -
  have l: "length phrase = length m" using assms by (rule list_all2_lengthD)
  show ?thesis using assms by (simp add: lit_ic_def l)
qed

lemma lit_ic_miss:
  "(r = [] \<or> \<not> ic_match c (hd r)) \<Longrightarrow> lit_ic (c # cs) r = []"
  by (cases r) (auto simp: lit_ic_def)

lemma preamble_hit:
  assumes ws: "\<forall>c\<in>set ws. is_space c"
    and m: "list_all2 ic_match phrase m" "m \<noteq> []" "\<not> is_space (hd m)"
    and body: "newline \<notin> set body"
  shows "re_sub_start (preamble phrase) (ws @ m @ body @ newline # tail) = tail"
proof -
  let ?r = "m @ body @ newline # tail"
  have "?r = [] \<or> \<not> is_space (hd ?r)" using m by simp
  then obtain rest where a: "star_greedy is_space (ws @ ?r) = (ws, ?r) # rest"
    using star_greedy_hd[OF ws] by blast
  have b: "lit_ic phrase ?r = [(m, body @ newline # tail)]" using m(1) by (rule lit_ic_hit)
  have c: "seq (star_lazy dot) (lit [newline]) (body @ newline # tail) = [(body @ [newline], tail)]"
    using body by (rule line_rest)
  obtain rest1 where d: "seq (lit_ic phrase) (seq (star_lazy dot) (lit [newline])) ?r =
      (m @ body @ [newline], tail) # rest1"
    using seq_hd[where a="lit_ic phrase" and b="seq (star_lazy dot) (lit [newline])", OF b c]
    by blast
  obtain rest2 where "preamble phrase (ws @ ?r) = (ws @ m @ body @ [newline], tail) # rest2"
    unfolding preamble_def
    using seq_hd[where a="star_greedy is_space"
        and b="seq (lit_ic phrase) (seq (star_lazy dot) (lit [newline]))", OF a d]
    by auto
  then show ?thesis by (simp add: re_sub_start_def)
qed

lemma preamble_miss:
  assumes sp: "\<And>y. is_space y \<Longrightarrow> \<not> ic_match c y"
    and r: "dropWhile is_space s = [] \<or> \<not> ic_match c (hd (dropWhile is_space s))"
  shows "re_sub_start (preamble (c # cs)) s = s"
proof -
  have "seq (star_greedy is_space) (seq (lit_ic (c # cs)) (seq (star_lazy dot) (lit [newline]))) s = []"
  proof (rule seq_empty)
    fix m1 r1 assume "(m1, r1) \<in> set (star_greedy is_space s)"
    then have "r1 = dropWhile is_space s \<or> (r1 \<noteq> [] \<and> is_space (hd r1))"
      by (rule star_greedy_rests)
    then have "r1 = [] \<or> \<not> ic_match c (hd r1)" using sp r by auto
    then have "lit_ic (c # cs) r1 = []" by (rule lit_ic_miss)
    then show "seq (lit_ic (c # cs)) (seq (star_lazy dot) (lit [newline])) r1 = []"
      by (simp add: seq_def)
  qed
  then show ?thesis by (simp add: re_sub_start_def preamble_def)
qed

lemma ic_match_letter:
  "ic_match 67 x \<longleftrightarrow> x = 67 \<or> x = 99"
  "ic_match 72 x \<longleftrightarrow> x = 72 \<or> x = 104"
  "ic_match 66 x \<longleftrightarrow> x = 66 \<or> x = 98"
  by (auto simp: ic_match_def is_ascii_alpha_def ascii_lower_def ic_extra_def split: if_splits)

lemma phrase_heads:
  "certainly = 67 # ustr ''ertainly!''" "here_is = 72 # ustr ''ere is''" "below_is = 66 # ustr ''elow is''"
  by (simp_all add: certainly_def here_is_def below_is_def)

lemma ic_head:
  assumes "list_all2 ic_match (c # cs) m"
  shows "m \<noteq> [] \<and> ic_match c (hd m)"
  using assms by (cases m) auto

lemma dropWhile_spaces:
  assumes "\<forall>c\<in>set ws. is_space c" "m \<noteq> []" "\<not> is_space (hd m)"
  shows "dropWhile is_space (ws @ m @ r) = m @ r"
proof -
  have "dropWhile is_space (ws @ m @ r) = dropWhile is_space (m @ r)"
    using assms(1) by (simp add: dropWhile_append2)
  also have "\<dots> = m @ r" using assms(2,3) by (cases m) auto
  finally show ?thesis .
qed

lemma space_not_letter:
  "is_space y \<Longrightarrow> \<not> ic_match 67 y \<and> \<not> ic_match 72 y \<and> \<not> ic_match 66 y"
  by (auto simp: ic_match_letter is_space_def)

lemma re_sub_start_keep:
  assumes "\<And>y. is_space y \<Longrightarrow> \<not> ic_match c y" "s \<noteq> []" "\<not> is_space (hd s)" "\<not> ic_match c (hd s)"
  shows "re_sub_start (preamble (c # cs)) s = s"
proof (rule preamble_miss)
  show "\<And>y. is_space y \<Longrightarrow> \<not> ic_match c y" using assms(1) .
  have "dropWhile is_space s = s" using assms(2,3) by (cases s) auto
  then show "dropWhile is_space s = [] \<or> \<not> ic_match c (hd (dropWhile is_space s))"
    using assms(4) by simp
qed

lemma keep_below_is:
  assumes "s \<noteq> []" "\<not> is_space (hd s)" "\<not> ic_match 66 (hd s)"
  shows "re_sub_start (preamble below_is) s = s"
  unfolding phrase_heads using space_not_letter assms by (intro re_sub_start_keep) blast+

section \<open>Properties of the prompt builder and the pipeline\<close>

lemma generate_fsys: "fsys (snd (generate_gherkin_with_llm h cfg td w)) = fsys w"
  by (auto simp: generate_gherkin_with_llm_def print_def Let_def
      split: sum.splits prod.splits completion.splits list.splits option.splits)

lemma generate_fst_llm:
  "llm w = llm w' \<Longrightarrow>
     fst (generate_gherkin_with_llm h cfg td w) = fst (generate_gherkin_with_llm h cfg td w')"
  by (auto simp: generate_gherkin_with_llm_def print_def Let_def
      split: sum.splits prod.splits completion.splits list.splits option.splits)

lemma generate_raises:
  assumes "build_prompt h td = Inr prompt"
    and "create h (llm w) \<lparr>model = api_model cfg, system_content = system_prompt, user_content = prompt\<rparr> = (Raises e, c')"
  shows "generate_gherkin_with_llm h cfg td w =
     (None, w\<lparr>llm := c',
              requests := requests w @ [\<lparr>model = api_model cfg, system_content = system_prompt, user_content = prompt\<rparr>],
              console := console w @ [PrintExn error_generating e]\<rparr>)"
  using assms by (simp add: generate_gherkin_with_llm_def print_def)

lemma render_get:
  "py_str (py_repr h) (get_or kvs key (JStr absent)) = render_or h kvs key absent"
  by (simp add: render_or_def get_or_def split: option.splits)

lemma format_step_obj:
  "format_step h idx (JObj c) = Inr (step_line h (Suc idx) c)"
proof -
  have "py_str (py_repr h) (get_or c (ustr ''step'') (JInt (int idx + 1))) =
      render_or h c (ustr ''step'') (str_int (int (Suc idx)))"
    by (simp add: render_or_def get_or_def add.commute split: option.splits)
  then show ?thesis
    unfolding format_step_def step_line_def dict_get_def
    by (simp only: render_get json.case sum.case)
qed

lemma format_steps_objs:
  "format_steps h idx (map JObj cs) =
     Inr (map (\<lambda>(i, c). step_line h (Suc i) c) (enumerate idx cs))"
  by (induction cs arbitrary: idx) (simp_all add: format_step_obj)

lemma build_prompt_obj:
  assumes "get_or kvs (ustr ''api_calls'') (JArr []) = JArr (map JObj cs)"
  shows "build_prompt h (JObj kvs) =
     Inr (prompt_head @ render_or h kvs (ustr ''test_description'') [] @
          prompt_code @ render_or h kvs (ustr ''test_code'') [] @
          prompt_workflow @
          py_join step_sep (map (\<lambda>(i, c). step_line h (Suc i) c) (enumerate 0 cs)) @
          prompt_schema @ json_dumps h (get_or kvs (ustr ''response_schema'') (JObj [])) @
          prompt_tail)"
  unfolding build_prompt_def dict_get_def
  by (simp only: assms json.case sum.case py_iter_def format_steps_objs Let_def render_get)

lemma process_file_writes:
  assumes read: "read_json h (fsys w) json_file = Inr (JObj kvs)"
    and gen: "fst (generate_gherkin_with_llm h cfg (JObj kvs) w) = Some content"
    and ne: "content \<noteq> []"
    and ok: "open_w_error h (fsys w) (path_join h gdir (artifact_name h kvs json_file @ ustr ''.gherkin'')) = None"
  shows "files (fsys (process_file h cfg gdir platform json_file w)) =
     (files (fsys w))(path_join h gdir (artifact_name h kvs json_file @ ustr ''.gherkin'') \<mapsto> content)"
proof -
  let ?w1 = "print (Print (ustr ''  Processing '' @ artifact_name h kvs json_file @ ustr ''...'')) w"
  let ?target = "path_join h gdir (artifact_name h kvs json_file @ ustr ''.gherkin'')"
  obtain gc w2 where g: "generate_gherkin_with_llm h cfg (JObj kvs) ?w1 = (gc, w2)"
    by (cases "generate_gherkin_with_llm h cfg (JObj kvs) ?w1")
  have "llm ?w1 = llm w" by (simp add: print_def)
  then have "fst (generate_gherkin_with_llm h cfg (JObj kvs) ?w1) =
      fst (generate_gherkin_with_llm h cfg (JObj kvs) w)"
    by (rule generate_fst_llm)
  then have "fst (generate_gherkin_with_llm h cfg (JObj kvs) ?w1) = Some content"
    using gen by simp
  then have gc: "gc = Some content" using g by simp
  have "fsys (snd (generate_gherkin_with_llm h cfg (JObj kvs) ?w1)) = fsys ?w1"
    by (rule generate_fsys)
  then have f: "fsys w2 = fsys w" using g by (simp add: print_def)
  have n: "py_str (py_repr h) (get_or kvs (ustr ''test_code'') (JStr (path_stem h json_file))) =
      artifact_name h kvs json_file"
    by (simp add: artifact_name_def render_get)
  have "try_file h cfg gdir platform json_file w =
      Inr (print (Print (ustr ''    Created gherkin/'' @ platform @ ustr ''/'' @ path_name h ?target))
             (w2\<lparr>fsys := (fsys w)\<lparr>files := (files (fsys w))(?target \<mapsto> content)\<rparr>\<rparr>))"
    using read g[unfolded gc] ne ok f
    by (simp add: try_file_def dict_get_def n[simplified] print_def write_text_def Let_def)
  then show ?thesis by (simp add: process_file_def print_def)
qed

lemma keep_certainly:
  assumes "s \<noteq> []" "\<not> is_space (hd s)" "\<not> ic_match 67 (hd s)"
  shows "re_sub_start (preamble certainly) s = s"
  unfolding phrase_heads using space_not_letter assms by (intro re_sub_start_keep) blast+

lemma keep_here_is:
  assumes "s \<noteq> []" "\<not> is_space (hd s)" "\<not> ic_match 72 (hd s)"
  shows "re_sub_start (preamble here_is) s = s"
  unfolding phrase_heads using space_not_letter assms by (intro re_sub_start_keep) blast+

lemma extract_failed_text: "extract_gherkin_code failed_text = Inr failed_text"
proof -
  have "\<not> has_fenced_block failed_text"
    by (rule no_backtick_no_block) (simp add: failed_text_def)
  then have a: "re_search code_block_at failed_text = None" by (simp add: no_block_iff)
  have b: "\<not> contains feature_tok failed_text"
    by (simp add: contains_def feature_tok_def failed_text_def)
  have h: "failed_text \<noteq> [] \<and> hd failed_text = 70" by (simp add: failed_text_def)
  then have k: "failed_text \<noteq> []" "\<not> is_space (hd failed_text)"
    "\<not> ic_match 67 (hd failed_text)" "\<not> ic_match 72 (hd failed_text)" "\<not> ic_match 66 (hd failed_text)"
    by (simp_all add: is_space_def ic_match_letter)
  have c: "re_sub_start (preamble certainly) failed_text = failed_text"
    "re_sub_start (preamble here_is) failed_text = failed_text"
    "re_sub_start (preamble below_is) failed_text = failed_text"
    using k by (simp_all add: keep_certainly keep_here_is keep_below_is)
  have d: "strip failed_text = failed_text" by (simp add: failed_text_def strip_def is_space_def)
  show ?thesis using a b by (simp add: extract_gherkin_code_def c d)
qed

lemma generate_no_content:
  assumes "build_prompt h td = Inr prompt"
    and "create h (llm w) \<lparr>model = api_model cfg, system_content = system_prompt, user_content = prompt\<rparr> =
           (Choices (content # others), c')"
    and "content = None \<or> content = Some []"
  shows "fst (generate_gherkin_with_llm h cfg td w) = Some failed_text"
  using assms by (auto simp: generate_gherkin_with_llm_def extract_failed_text)

lemma failed_text_nonempty: "failed_text \<noteq> []"
  by (simp add: failed_text_def)

lemma demo_read:
  "read_json demo_host (fsys (demo_world n)) demo_file = Inr (JObj demo_record)"
  by (simp add: read_json_def demo_world_def demo_host_def demo_loads_def)

lemma demo_build: "build_prompt demo_host (JObj demo_record) = Inr demo_prompt"
proof -
  have "json_dumps demo_host (JObj []) = ustr ''{}''" by (simp add: demo_host_def demo_dumps_def)
  then show ?thesis
    using build_prompt_obj[of demo_record "[]" demo_host]
    by (simp add: render_or_def get_or_def demo_record_def demo_prompt_def)
qed

lemma demo_name: "artifact_name demo_host demo_record demo_file = ustr ''TC001''"
  by (simp add: artifact_name_def render_or_def demo_record_def)



lemma extract_fallback:
  assumes "\<not> has_fenced_block r" and "\<not> contains feature_tok r"
  shows "extract_gherkin_code r =
     Inr (strip (re_sub_start (preamble below_is) (re_sub_start (preamble here_is)
       (re_sub_start (preamble certainly) r))))"
proof -
  have "re_search code_block_at r = None" using assms(1) by (rule iffD2[OF no_block_iff])
  then show ?thesis using assms(2) by (simp add: extract_gherkin_code_def)
qed

section \<open>The claims\<close>

text \<open>
  C1. For every response that contains a block delimited by triple backticks, optionally
  tagged \<open>gherkin\<close>, the extractor returns the trimmed contents of the first such
  block, without the fence markers, whatever stands before or after the block. The
  block is the first one when its opening fence is the first triple backtick of the
  response and its closing fence the first triple backtick after the tag; an untagged
  block is one whose contents do not start with \<open>gherkin\<close>.
\<close>

theorem extract_first_fenced_block:
  assumes "find_sub fence (pre @ fence @ tag @ body @ fence @ post) = Some (length pre)"
    and "tag = gherkin_tag \<or> (tag = [] \<and> \<not> prefix gherkin_tag body)"
    and "find_sub fence (body @ fence) = Some (length body)"
  shows "extract_gherkin_code (pre @ fence @ tag @ body @ fence @ post) = Inr (strip body)"
proof -
  let ?r = "fence @ tag @ body @ fence @ post"
  have "\<forall>i<length pre. code_block_at (drop i (pre @ ?r)) = []"
    using assms(1) by (simp add: find_sub_Some_iff code_block_at_no_fence)
  then have "re_search code_block_at (pre @ ?r) = re_search code_block_at ?r"
    by (rule re_search_skip)
  moreover obtain rest where "code_block_at ?r = body # rest"
    using code_block_at_block[OF assms(2,3)] by blast
  ultimately have "re_search code_block_at (pre @ ?r) = Some body"
    by (simp add: re_search_hit)
  then show ?thesis by (simp add: extract_gherkin_code_def)
qed

theorem extract_first_fenced_block_witness:
  "find_sub fence (ustr ''Sure:\<newline>'' @ fence @ gherkin_tag @ ustr ''\<newline>Feature: Login\<newline>'' @ fence @ ustr ''\<newline>bye'') = Some 6 \<and>
   find_sub fence (ustr ''\<newline>Feature: Login\<newline>'' @ fence) = Some 16 \<and>
   extract_gherkin_code (ustr ''Sure:\<newline>```gherkin\<newline>Feature: Login\<newline>```\<newline>bye'') =
     Inr (ustr ''Feature: Login'')"
proof -
  have a: "find_sub fence (ustr ''Sure:\<newline>'' @ fence @ gherkin_tag @ ustr ''\<newline>Feature: Login\<newline>'' @ fence @ ustr ''\<newline>bye'') =
      Some (length (ustr ''Sure:\<newline>''))"
    by (simp add: fence_def gherkin_tag_def)
  have b: "find_sub fence (ustr ''\<newline>Feature: Login\<newline>'' @ fence) =
      Some (length (ustr ''\<newline>Feature: Login\<newline>''))"
    by (simp add: fence_def)
  have c: "strip (ustr ''\<newline>Feature: Login\<newline>'') = ustr ''Feature: Login''"
    by (simp add: strip_def is_space_def)
  show ?thesis
    using extract_first_fenced_block [OF a _ b] a b c by (simp add: fence_def gherkin_tag_def)
qed

text \<open>
  C2. For every response that contains no fenced block but contains \<open>Feature:\<close>, the
  extractor returns the trimmed text from the first occurrence of \<open>Feature:\<close> on,
  without what precedes it.
\<close>

theorem extract_from_feature:
  assumes "\<not> has_fenced_block (pre @ feature_tok @ post)"
    and "find_sub feature_tok (pre @ feature_tok @ post) = Some (length pre)"
  shows "extract_gherkin_code (pre @ feature_tok @ post) = Inr (strip (feature_tok @ post))"
proof -
  have "re_search code_block_at (pre @ feature_tok @ post) = None"
    using assms(1) by (simp add: no_block_iff)
  then show ?thesis
    using assms(2) by (simp add: extract_gherkin_code_def contains_def py_index_def)
qed

theorem extract_from_feature_witness:
  "\<not> has_fenced_block (ustr ''Sure! Feature: Login\<newline>  Scenario: a\<newline>'') \<and>
   find_sub feature_tok (ustr ''Sure! Feature: Login\<newline>  Scenario: a\<newline>'') = Some 6 \<and>
   extract_gherkin_code (ustr ''Sure! Feature: Login\<newline>  Scenario: a\<newline>'') =
     Inr (ustr ''Feature: Login\<newline>  Scenario: a'')"
proof -
  let ?s = "ustr ''Sure! Feature: Login\<newline>  Scenario: a\<newline>''"
  let ?pre = "ustr ''Sure! ''" and ?post = "ustr '' Login\<newline>  Scenario: a\<newline>''"
  have e: "?s = ?pre @ feature_tok @ ?post"
    by (simp add: feature_tok_def)
  have a: "\<not> has_fenced_block ?s"
    by (rule no_backtick_no_block) simp
  have b: "find_sub feature_tok ?s = Some 6"
    by (simp add: feature_tok_def)
  have b': "find_sub feature_tok ?s = Some (length ?pre)"
    by (simp add: feature_tok_def)
  have c: "strip (feature_tok @ ?post) = ustr ''Feature: Login\<newline>  Scenario: a''"
    by (simp add: feature_tok_def strip_def is_space_def)
  have "extract_gherkin_code (?pre @ feature_tok @ ?post) = Inr (strip (feature_tok @ ?post))"
    using a[unfolded e] b'[unfolded e] by (rule extract_from_feature)
  then have r: "extract_gherkin_code ?s = Inr (ustr ''Feature: Login\<newline>  Scenario: a'')"
    unfolding c e[symmetric] .
  from a b r show ?thesis by (intro conjI)
qed

text \<open>
  C3. When the completion call raises while a file is processed, the error is printed,
  \<open>generate_gherkin_with_llm\<close> returns \<open>None\<close>, the body of the loop ends without an
  exception, the file system is as it was (no output file for that file), and the loop
  goes on with the next file from the world \<open>w'\<close>, which differs from \<open>w\<close> by the
  request sent, the state of the service and three console lines.
\<close>

theorem completion_failure_skips_file:
  assumes read: "read_json h (fsys w) json_file = Inr (JObj kvs)"
    and prompt: "build_prompt h (JObj kvs) = Inr prompt"
    and raises: "create h (llm w) \<lparr>model = api_model cfg, system_content = system_prompt, user_content = prompt\<rparr> = (Raises e, c')"
    and w': "w' = w\<lparr>llm := c',
              requests := requests w @ [\<lparr>model = api_model cfg, system_content = system_prompt, user_content = prompt\<rparr>],
              console := console w @
                [Print (ustr ''  Processing '' @ artifact_name h kvs json_file @ ustr ''...''),
                 PrintExn error_generating e,
                 Print (ustr ''    Failed to generate Gherkin for '' @ artifact_name h kvs json_file)]\<rparr>"
  shows "fst (generate_gherkin_with_llm h cfg (JObj kvs) w) = None \<and>
         try_file h cfg gdir platform json_file w = Inr w' \<and>
         fsys w' = fsys w \<and>
         process_files h cfg gdir platform (json_file # json_files) w =
           process_files h cfg gdir platform json_files w'"
proof -
  let ?req = "\<lparr>model = api_model cfg, system_content = system_prompt, user_content = prompt\<rparr>"
  let ?w1 = "print (Print (ustr ''  Processing '' @ artifact_name h kvs json_file @ ustr ''...'')) w"
  have a: "fst (generate_gherkin_with_llm h cfg (JObj kvs) w) = None"
    using generate_raises[OF prompt raises] by simp
  have "create h (llm ?w1) ?req = (Raises e, c')" using raises by (simp add: print_def)
  then have g: "generate_gherkin_with_llm h cfg (JObj kvs) ?w1 =
      (None, ?w1\<lparr>llm := c', requests := requests ?w1 @ [?req],
                  console := console ?w1 @ [PrintExn error_generating e]\<rparr>)"
    by (rule generate_raises[OF prompt])
  have n: "py_str (py_repr h) (get_or kvs (ustr ''test_code'') (JStr (path_stem h json_file))) =
      artifact_name h kvs json_file"
    by (simp add: artifact_name_def render_or_def get_or_def split: option.splits)
  have t: "try_file h cfg gdir platform json_file w = Inr w'"
    using read g by (simp add: try_file_def dict_get_def n[simplified] w' print_def)
  then have "process_file h cfg gdir platform json_file w = w'" by (simp add: process_file_def)
  then show ?thesis using a t by (simp add: w')
qed

theorem completion_failure_skips_file_witness:
  "process_files demo_host demo_config [ustr ''out''] (ustr ''azure'') [demo_file] (demo_world 0) =
     (demo_world 0)\<lparr>llm := 1,
        requests := [\<lparr>model = api_model demo_config, system_content = system_prompt,
                     user_content = demo_prompt\<rparr>],
        console :=
          [Print (ustr ''  Processing TC001...''),
           PrintExn error_generating (ServiceError (ustr ''Connection error.'')),
           Print (ustr ''    Failed to generate Gherkin for TC001'')]\<rparr>"
proof -
  have "create demo_host (llm (demo_world 0))
      \<lparr>model = api_model demo_config, system_content = system_prompt, user_content = demo_prompt\<rparr> =
      (Raises (ServiceError (ustr ''Connection error.'')), 1)"
    by (simp add: demo_host_def demo_create_def demo_world_def)
  from completion_failure_skips_file[OF demo_read demo_build this refl,
      of "[ustr ''out'']" "ustr ''azure''" "[]"]
  show ?thesis by (simp add: demo_name demo_world_def)
qed

text \<open>
  C4. When one of the four configuration values (API key, endpoint, API version, model)
  is absent, the process prints the two lines of guidance after its two opening lines
  and exits with status 1; no request has been sent and the file system and the
  service are untouched.
\<close>

theorem missing_configuration_exits:
  assumes "api_key cfg = None \<or> endpoint cfg = None \<or> api_version cfg = None \<or> api_model cfg = None"
  shows "main h cfg base_dir w =
     (SystemExit 1,
      w\<lparr>console := console w @
         [Print (ustr ''Starting Gherkin feature generation using Azure OpenAI...''),
          Print (ustr ''Base directory: '' @ path_str h base_dir @ ustr ''\<newline>''),
          Print (ustr ''Error: Missing Azure OpenAI configuration!''),
          Print (ustr ''Please copy .env.example to .env and fill in your credentials.'')]\<rparr>) \<and>
     requests (snd (main h cfg base_dir w)) = requests w \<and>
     llm (snd (main h cfg base_dir w)) = llm w \<and>
     fsys (snd (main h cfg base_dir w)) = fsys w"
  using assms by (auto simp: main_def truthy_def print_def)

theorem missing_configuration_exits_witness:
  "fst (main demo_host (demo_config\<lparr>api_key := None\<rparr>) [ustr ''repo''] (demo_world 0)) = SystemExit 1 \<and>
   requests (snd (main demo_host (demo_config\<lparr>api_key := None\<rparr>) [ustr ''repo''] (demo_world 0))) = [] \<and>
   fsys (snd (main demo_host (demo_config\<lparr>api_key := None\<rparr>) [ustr ''repo''] (demo_world 0))) =
     fsys (demo_world 0)"
  using missing_configuration_exits[of "demo_config\<lparr>api_key := None\<rparr>" demo_host "[ustr ''repo'']" "demo_world 0"]
  by (simp add: demo_world_def)

text \<open>
  C5, as amended. For a record whose \<open>api_calls\<close> is absent or a list of step records:
  an absent \<open>test_description\<close>, \<open>test_code\<close> or \<open>api_url\<close> renders as the empty string,
  an absent \<open>name\<close> as \<open>API Call\<close>, an absent \<open>method\<close> as \<open>GET\<close>, an absent \<open>step\<close> as the
  1-based position of the step and a present one as its own value, and an absent
  \<open>response_schema\<close> as the JSON text of the empty object.
\<close>

theorem build_prompt_renders_defaults:
  assumes "get_or kvs (ustr ''api_calls'') (JArr []) = JArr (map JObj cs)"
  shows "build_prompt h (JObj kvs) =
     Inr (prompt_head @ render_or h kvs (ustr ''test_description'') [] @
          prompt_code @ render_or h kvs (ustr ''test_code'') [] @
          prompt_workflow @
          py_join step_sep (map (\<lambda>(i, c). step_line h (Suc i) c) (enumerate 0 cs)) @
          prompt_schema @ json_dumps h (get_or kvs (ustr ''response_schema'') (JObj [])) @
          prompt_tail) \<and>
     step_line h n [] = ustr ''Step '' @ str_int (int n) @ ustr '': API Call (GET )'' \<and>
     (\<forall>c key absent. map_of c key = None \<longrightarrow> render_or h c key absent = absent) \<and>
     (\<forall>c key absent s. map_of c key = Some (JStr s) \<longrightarrow> render_or h c key absent = s)"
  using build_prompt_obj[OF assms] by (simp add: step_line_def render_or_def)

theorem build_prompt_renders_defaults_witness:
  "build_prompt demo_host (JObj [(ustr ''api_calls'', demo_steps)]) =
     Inr (prompt_head @ prompt_code @ prompt_workflow @
          ustr ''Step 1: API Call (GET )\<newline>      Step 7: Login (POST /login)'' @
          prompt_schema @ ustr ''{}'' @ prompt_tail)"
proof -
  have a: "get_or [(ustr ''api_calls'', demo_steps)] (ustr ''api_calls'') (JArr []) =
      JArr (map JObj [[], [(ustr ''step'', JInt 7), (ustr ''name'', JStr (ustr ''Login'')),
        (ustr ''method'', JStr (ustr ''POST'')), (ustr ''api_url'', JStr (ustr ''/login''))]])"
    by (simp add: get_or_def demo_steps_def)
  have "json_dumps demo_host (JObj []) = ustr ''{}''" by (simp add: demo_host_def demo_dumps_def)
  then show ?thesis
    using build_prompt_renders_defaults[OF a, of demo_host 1]
    by (simp add: render_or_def get_or_def step_line_def step_sep_def str_int_def digits.simps)
qed

text \<open>
  C5 as stated, that every absent field renders as an empty string and that steps are
  numbered by their positions, fails on a record with two steps that name nothing, the
  second carrying the step number 7: the prompt shows the defaults \<open>API Call\<close> and
  \<open>GET\<close>, the number 7 and the schema \<open>{}\<close>.
\<close>

theorem absent_fields_counterexample:
  "build_prompt demo_host (JObj [(ustr ''api_calls'', JArr [JObj [], JObj [(ustr ''step'', JInt 7)]])]) =
     Inr (prompt_head @ prompt_code @ prompt_workflow @
          ustr ''Step 1: API Call (GET )\<newline>      Step 7: API Call (GET )'' @
          prompt_schema @ ustr ''{}'' @ prompt_tail) \<and>
   build_prompt demo_host (JObj [(ustr ''api_calls'', JArr [JObj [], JObj [(ustr ''step'', JInt 7)]])]) \<noteq>
     Inr (prompt_head @ prompt_code @ prompt_workflow @
          ustr ''Step 1:  ( )\<newline>      Step 2:  ( )'' @
          prompt_schema @ prompt_tail)"
proof -
  have a: "get_or [(ustr ''api_calls'', JArr [JObj [], JObj [(ustr ''step'', JInt 7)]])]
      (ustr ''api_calls'') (JArr []) = JArr (map JObj [[], [(ustr ''step'', JInt 7)]])"
    by (simp add: get_or_def)
  have "json_dumps demo_host (JObj []) = ustr ''{}''" by (simp add: demo_host_def demo_dumps_def)
  then show ?thesis
    using build_prompt_obj[OF a, of demo_host]
    by (simp add: render_or_def get_or_def step_line_def step_sep_def str_int_def digits.simps)
qed

text \<open>
  C6. For every record without \<open>api_calls\<close> the prompt builder returns a prompt (it does
  not raise) whose workflow section is empty: the heading of the workflow is followed
  at once by the heading of the response schema.
\<close>

theorem build_prompt_without_api_calls:
  assumes "map_of kvs (ustr ''api_calls'') = None"
  shows "build_prompt h (JObj kvs) =
     Inr (prompt_head @ render_or h kvs (ustr ''test_description'') [] @
          prompt_code @ render_or h kvs (ustr ''test_code'') [] @
          prompt_workflow @
          prompt_schema @ json_dumps h (get_or kvs (ustr ''response_schema'') (JObj [])) @
          prompt_tail)"
proof -
  have "get_or kvs (ustr ''api_calls'') (JArr []) = JArr (map JObj [])"
    using assms by (simp add: get_or_def)
  then show ?thesis using build_prompt_obj[of kvs "[]" h] by simp
qed

theorem build_prompt_without_api_calls_witness:
  "map_of demo_record (ustr ''api_calls'') = None \<and>
   build_prompt demo_host (JObj demo_record) =
     Inr (prompt_head @ prompt_code @ ustr ''TC001'' @ prompt_workflow @ prompt_schema @
          ustr ''{}'' @ prompt_tail)"
proof -
  have a: "map_of demo_record (ustr ''api_calls'') = None" by (simp add: demo_record_def)
  have "json_dumps demo_host (JObj []) = ustr ''{}''" by (simp add: demo_host_def demo_dumps_def)
  then show ?thesis
    using build_prompt_without_api_calls[OF a, of demo_host] a
    by (simp add: render_or_def get_or_def demo_record_def)
qed

text \<open>
  C7, as amended. For every response with no fenced block and no \<open>Feature:\<close>, the
  three patterns are applied once each, in the order \<open>Certainly!...\<close>, \<open>Here is...\<close>,
  \<open>Below is...\<close>, each to what the one before left, and the trimmed result is returned.
  So a leading line that matches one of them without regard to case is removed up to
  and including its newline, whitespace before it included, and the patterns that come
  later in the order are then applied to the text after the line: both later patterns
  after a \<open>Certainly!\<close> line, the \<open>Below is\<close> pattern after a \<open>Here is\<close> line, none after
  a \<open>Below is\<close> line. A response that begins with \<open>Here is the Gherkin code:\<close> and a
  newline is the case \<open>ws = []\<close>, \<open>m = here_is\<close> of the second part: that line is removed.
\<close>

theorem extract_strips_preamble:
  assumes nb: "\<not> has_fenced_block response"
    and nf: "\<not> contains feature_tok response"
    and shape: "response = ws @ m @ body @ newline # tail"
    and ws: "\<forall>c\<in>set ws. is_space c"
    and body: "newline \<notin> set body"
  shows "(list_all2 ic_match certainly m \<longrightarrow>
            extract_gherkin_code response =
              Inr (strip (re_sub_start (preamble below_is) (re_sub_start (preamble here_is) tail)))) \<and>
         (list_all2 ic_match here_is m \<longrightarrow>
            extract_gherkin_code response = Inr (strip (re_sub_start (preamble below_is) tail))) \<and>
         (list_all2 ic_match below_is m \<longrightarrow>
            extract_gherkin_code response = Inr (strip tail))"
proof -
  have "re_search code_block_at response = None" using nb by (simp add: no_block_iff)
  then have base: "extract_gherkin_code response =
      Inr (strip (re_sub_start (preamble below_is) (re_sub_start (preamble here_is)
        (re_sub_start (preamble certainly) response))))"
    using nf by (simp add: extract_gherkin_code_def)
  have sp: "\<not> ic_match 67 y \<and> \<not> ic_match 72 y \<and> \<not> ic_match 66 y" if "is_space y" for y
    using that by (auto simp: ic_match_letter is_space_def)
  have hit: "re_sub_start (preamble phrase) response = tail"
    if "list_all2 ic_match phrase m" "m \<noteq> []" "\<not> is_space (hd m)" for phrase
    unfolding shape using ws that body by (rule preamble_hit)
  have miss: "re_sub_start (preamble (c # cs)) response = response"
    if "\<And>y. is_space y \<Longrightarrow> \<not> ic_match c y" "m \<noteq> []" "\<not> is_space (hd m)" "\<not> ic_match c (hd m)"
    for c cs
  proof (rule preamble_miss)
    show "\<And>y. is_space y \<Longrightarrow> \<not> ic_match c y" using that(1) .
    have "dropWhile is_space response = m @ body @ newline # tail"
      unfolding shape using ws that(2,3) by (rule dropWhile_spaces)
    then show "dropWhile is_space response = [] \<or> \<not> ic_match c (hd (dropWhile is_space response))"
      using that(2,4) by simp
  qed
  have A: "extract_gherkin_code response =
      Inr (strip (re_sub_start (preamble below_is) (re_sub_start (preamble here_is) tail)))"
    if "list_all2 ic_match certainly m"
  proof -
    have h: "m \<noteq> [] \<and> ic_match 67 (hd m)" using that unfolding phrase_heads by (rule ic_head)
    then have "\<not> is_space (hd m)" using sp by blast
    then have "re_sub_start (preamble certainly) response = tail" using hit that h by blast
    then show ?thesis using base by simp
  qed
  have B: "extract_gherkin_code response = Inr (strip (re_sub_start (preamble below_is) tail))"
    if "list_all2 ic_match here_is m"
  proof -
    have h: "m \<noteq> [] \<and> ic_match 72 (hd m)" using that unfolding phrase_heads by (rule ic_head)
    then have ns: "\<not> is_space (hd m)" using sp by blast
    have "\<not> ic_match 67 (hd m)" using h by (auto simp: ic_match_letter)
    then have "re_sub_start (preamble certainly) response = response"
      unfolding phrase_heads using miss sp h ns by blast
    moreover have "re_sub_start (preamble here_is) response = tail" using hit that h ns by blast
    ultimately show ?thesis using base by simp
  qed
  have C: "extract_gherkin_code response = Inr (strip tail)"
    if "list_all2 ic_match below_is m"
  proof -
    have h: "m \<noteq> [] \<and> ic_match 66 (hd m)" using that unfolding phrase_heads by (rule ic_head)
    then have ns: "\<not> is_space (hd m)" using sp by blast
    have "\<not> ic_match 67 (hd m)" "\<not> ic_match 72 (hd m)" using h by (auto simp: ic_match_letter)
    then have "re_sub_start (preamble certainly) response = response"
      "re_sub_start (preamble here_is) response = response"
      unfolding phrase_heads using miss sp h ns by blast+
    moreover have "re_sub_start (preamble below_is) response = tail" using hit that h ns by blast
    ultimately show ?thesis using base by simp
  qed
  from A B C show ?thesis by blast
qed

theorem extract_strips_preamble_witness:
  "extract_gherkin_code (ustr ''Here is the Gherkin code:\<newline>Given a user\<newline>When x\<newline>'') =
     Inr (ustr ''Given a user\<newline>When x'') \<and>
   extract_gherkin_code (ustr ''  CERTAINLY! Sure.\<newline>here is it:\<newline>Given y'') = Inr (ustr ''Given y'') \<and>
   extract_gherkin_code (ustr ''below is the text\<newline>Then z\<newline>'') = Inr (ustr ''Then z'')"
proof -
  let ?s1 = "ustr ''Here is the Gherkin code:\<newline>Given a user\<newline>When x\<newline>''"
  let ?t1 = "ustr ''Given a user\<newline>When x\<newline>''"
  have "\<not> has_fenced_block ?s1" by (rule no_backtick_no_block) simp
  moreover have "\<not> contains feature_tok ?s1" by (simp add: contains_def feature_tok_def)
  moreover have "?s1 = [] @ ustr ''Here is'' @ ustr '' the Gherkin code:'' @ newline # ?t1"
    by (simp add: newline_def)
  moreover have "\<forall>c\<in>set []. is_space c" by simp
  moreover have "newline \<notin> set (ustr '' the Gherkin code:'')" by (simp add: newline_def)
  ultimately have "list_all2 ic_match here_is (ustr ''Here is'') \<longrightarrow>
      extract_gherkin_code ?s1 = Inr (strip (re_sub_start (preamble below_is) ?t1))"
    using extract_strips_preamble by blast
  moreover have "list_all2 ic_match here_is (ustr ''Here is'')"
    by (simp add: here_is_def ic_match_def is_ascii_alpha_def ascii_lower_def ic_extra_def)
  moreover have "re_sub_start (preamble below_is) ?t1 = ?t1"
    by (rule keep_below_is) (simp_all add: ic_match_letter is_space_def)
  moreover have "strip ?t1 = ustr ''Given a user\<newline>When x''" by (simp add: strip_def is_space_def)
  ultimately have r1: "extract_gherkin_code ?s1 = Inr (ustr ''Given a user\<newline>When x'')" by simp
  let ?s2 = "ustr ''  CERTAINLY! Sure.\<newline>here is it:\<newline>Given y''"
  let ?t2 = "ustr ''here is it:\<newline>Given y''"
  have "\<not> has_fenced_block ?s2" by (rule no_backtick_no_block) simp
  moreover have "\<not> contains feature_tok ?s2" by (simp add: contains_def feature_tok_def)
  moreover have "?s2 = ustr ''  '' @ ustr ''CERTAINLY!'' @ ustr '' Sure.'' @ newline # ?t2"
    by (simp add: newline_def)
  moreover have "\<forall>c\<in>set (ustr ''  ''). is_space c" by (simp add: is_space_def)
  moreover have "newline \<notin> set (ustr '' Sure.'')" by (simp add: newline_def)
  ultimately have "list_all2 ic_match certainly (ustr ''CERTAINLY!'') \<longrightarrow>
      extract_gherkin_code ?s2 =
        Inr (strip (re_sub_start (preamble below_is) (re_sub_start (preamble here_is) ?t2)))"
    using extract_strips_preamble by blast
  moreover have "list_all2 ic_match certainly (ustr ''CERTAINLY!'')"
    by (simp add: certainly_def ic_match_def is_ascii_alpha_def ascii_lower_def ic_extra_def)
  moreover have "re_sub_start (preamble here_is) ?t2 = ustr ''Given y''"
  proof -
    have "list_all2 ic_match here_is (ustr ''here is'')"
      by (simp add: here_is_def ic_match_def is_ascii_alpha_def ascii_lower_def ic_extra_def)
    then have "re_sub_start (preamble here_is) ([] @ ustr ''here is'' @ ustr '' it:'' @ newline # ustr ''Given y'') =
        ustr ''Given y''"
      by (intro preamble_hit) (simp_all add: is_space_def newline_def)
    then show ?thesis by (simp add: newline_def)
  qed
  moreover have "re_sub_start (preamble below_is) (ustr ''Given y'') = ustr ''Given y''"
    by (rule keep_below_is) (simp_all add: ic_match_letter is_space_def)
  moreover have "strip (ustr ''Given y'') = ustr ''Given y''" by (simp add: strip_def is_space_def)
  ultimately have r2: "extract_gherkin_code ?s2 = Inr (ustr ''Given y'')" by simp
  let ?s3 = "ustr ''below is the text\<newline>Then z\<newline>''"
  let ?t3 = "ustr ''Then z\<newline>''"
  have "\<not> has_fenced_block ?s3" by (rule no_backtick_no_block) simp
  moreover have "\<not> contains feature_tok ?s3" by (simp add: contains_def feature_tok_def)
  moreover have "?s3 = [] @ ustr ''below is'' @ ustr '' the text'' @ newline # ?t3"
    by (simp add: newline_def)
  moreover have "\<forall>c\<in>set []. is_space c" by simp
  moreover have "newline \<notin> set (ustr '' the text'')" by (simp add: newline_def)
  ultimately have "list_all2 ic_match below_is (ustr ''below is'') \<longrightarrow>
      extract_gherkin_code ?s3 = Inr (strip ?t3)"
    using extract_strips_preamble by blast
  moreover have "list_all2 ic_match below_is (ustr ''below is'')"
    by (simp add: below_is_def ic_match_def is_ascii_alpha_def ascii_lower_def ic_extra_def)
  moreover have "strip ?t3 = ustr ''Then z''" by (simp add: strip_def is_space_def)
  ultimately have r3: "extract_gherkin_code ?s3 = Inr (ustr ''Then z'')" by simp
  from r1 r2 r3 show ?thesis by (intro conjI)
qed

text \<open>
  C7 as stated, that the leading line is removed and the trimmed remainder returned,
  fails where a second line matches a later pattern: after a \<open>Certainly!\<close> line the
  \<open>Here is\<close> line that follows is removed too, so the result is not the trimmed
  remainder. Read as removing every leading line that matches, it fails as well: after
  a \<open>Here is\<close> line a \<open>Certainly!\<close> line stays, its pattern having been applied before.
\<close>

theorem sequential_patterns_counterexample:
  "extract_gherkin_code (ustr ''Certainly!\<newline>Here is the plan\<newline>Given y'') = Inr (ustr ''Given y'') \<and>
   extract_gherkin_code (ustr ''Certainly!\<newline>Here is the plan\<newline>Given y'') \<noteq>
     Inr (strip (ustr ''Here is the plan\<newline>Given y'')) \<and>
   extract_gherkin_code (ustr ''Here is x\<newline>Certainly! y\<newline>Given z'') =
     Inr (ustr ''Certainly! y\<newline>Given z'')"
proof -
  let ?s1 = "ustr ''Certainly!\<newline>Here is the plan\<newline>Given y''"
  let ?t1 = "ustr ''Here is the plan\<newline>Given y''"
  have "\<not> has_fenced_block ?s1" by (rule no_backtick_no_block) simp
  moreover have "\<not> contains feature_tok ?s1" by (simp add: contains_def feature_tok_def)
  ultimately have b1: "extract_gherkin_code ?s1 =
      Inr (strip (re_sub_start (preamble below_is) (re_sub_start (preamble here_is)
        (re_sub_start (preamble certainly) ?s1))))"
    by (rule extract_fallback)
  have "list_all2 ic_match certainly (ustr ''Certainly!'')"
    by (simp add: certainly_def ic_match_def is_ascii_alpha_def ascii_lower_def ic_extra_def)
  then have "re_sub_start (preamble certainly) ([] @ ustr ''Certainly!'' @ [] @ newline # ?t1) = ?t1"
    by (intro preamble_hit) (simp_all add: is_space_def newline_def)
  then have c1: "re_sub_start (preamble certainly) ?s1 = ?t1" by (simp add: newline_def)
  have "list_all2 ic_match here_is (ustr ''Here is'')"
    by (simp add: here_is_def ic_match_def is_ascii_alpha_def ascii_lower_def ic_extra_def)
  then have "re_sub_start (preamble here_is) ([] @ ustr ''Here is'' @ ustr '' the plan'' @ newline # ustr ''Given y'') =
      ustr ''Given y''"
    by (intro preamble_hit) (simp_all add: is_space_def newline_def)
  then have h1: "re_sub_start (preamble here_is) ?t1 = ustr ''Given y''" by (simp add: newline_def)
  have k1: "re_sub_start (preamble below_is) (ustr ''Given y'') = ustr ''Given y''"
    by (rule keep_below_is) (simp_all add: ic_match_letter is_space_def)
  have "strip (ustr ''Given y'') = ustr ''Given y''" by (simp add: strip_def is_space_def)
  then have r1: "extract_gherkin_code ?s1 = Inr (ustr ''Given y'')"
    by (simp only: b1 c1 h1 k1)
  have "strip ?t1 = ?t1" by (simp add: strip_def is_space_def)
  then have n1: "extract_gherkin_code ?s1 \<noteq> Inr (strip ?t1)"
    by (simp only: r1) simp
  let ?s2 = "ustr ''Here is x\<newline>Certainly! y\<newline>Given z''"
  let ?t2 = "ustr ''Certainly! y\<newline>Given z''"
  have "\<not> has_fenced_block ?s2" by (rule no_backtick_no_block) simp
  moreover have "\<not> contains feature_tok ?s2" by (simp add: contains_def feature_tok_def)
  ultimately have b2: "extract_gherkin_code ?s2 =
      Inr (strip (re_sub_start (preamble below_is) (re_sub_start (preamble here_is)
        (re_sub_start (preamble certainly) ?s2))))"
    by (rule extract_fallback)
  have c2: "re_sub_start (preamble certainly) ?s2 = ?s2"
    by (rule keep_certainly) (simp_all add: ic_match_letter is_space_def)
  have "list_all2 ic_match here_is (ustr ''Here is'')"
    by (simp add: here_is_def ic_match_def is_ascii_alpha_def ascii_lower_def ic_extra_def)
  then have "re_sub_start (preamble here_is) ([] @ ustr ''Here is'' @ ustr '' x'' @ newline # ?t2) = ?t2"
    by (intro preamble_hit) (simp_all add: is_space_def newline_def)
  then have h2: "re_sub_start (preamble here_is) ?s2 = ?t2" by (simp add: newline_def)
  have k2: "re_sub_start (preamble below_is) ?t2 = ?t2"
    by (rule keep_below_is) (simp_all add: ic_match_letter is_space_def)
  have "strip ?t2 = ?t2" by (simp add: strip_def is_space_def)
  then have r2: "extract_gherkin_code ?s2 = Inr ?t2"
    by (simp only: b2 c2 h2 k2)
  from r1 n1 r2 show ?thesis by (intro conjI)
qed



text \<open>
  C9. When the first choice of the answer has no content, or the empty string, the text
  \<open>Failed to generate Gherkin code\<close> takes its place; the extractor returns it
  unchanged, and being non-empty it is written to the output file of the definition.
\<close>

theorem missing_content_writes_fallback:
  assumes read: "read_json h (fsys w) json_file = Inr (JObj kvs)"
    and prompt: "build_prompt h (JObj kvs) = Inr prompt"
    and answer: "create h (llm w) \<lparr>model = api_model cfg, system_content = system_prompt, user_content = prompt\<rparr> =
                   (Choices (content # others), c')"
    and empty: "content = None \<or> content = Some []"
    and target: "target = path_join h gdir (artifact_name h kvs json_file @ ustr ''.gherkin'')"
    and ok: "open_w_error h (fsys w) target = None"
  shows "extract_gherkin_code failed_text = Inr failed_text \<and>
         fst (generate_gherkin_with_llm h cfg (JObj kvs) w) = Some failed_text \<and>
         files (fsys (process_file h cfg gdir platform json_file w)) =
           (files (fsys w))(target \<mapsto> failed_text)"
proof -
  have g: "fst (generate_gherkin_with_llm h cfg (JObj kvs) w) = Some failed_text"
    using prompt answer empty by (rule generate_no_content)
  have "files (fsys (process_file h cfg gdir platform json_file w)) =
      (files (fsys w))(target \<mapsto> failed_text)"
    unfolding target using read g failed_text_nonempty ok[unfolded target]
    by (rule process_file_writes)
  then show ?thesis using g extract_failed_text by simp
qed

theorem missing_content_writes_fallback_witness:
  "files (fsys (process_file demo_host demo_config [ustr ''out''] (ustr ''azure'') demo_file (demo_world 1)))
     [ustr ''out'', ustr ''TC001.gherkin''] =
   Some (ustr ''Failed to generate Gherkin code'')"
proof -
  have a: "create demo_host (llm (demo_world 1))
      \<lparr>model = api_model demo_config, system_content = system_prompt, user_content = demo_prompt\<rparr> =
      (Choices (None # []), 2)"
    by (simp add: demo_host_def demo_create_def demo_world_def)
  have t: "[ustr ''out'', ustr ''TC001.gherkin''] =
      path_join demo_host [ustr ''out''] (artifact_name demo_host demo_record demo_file @ ustr ''.gherkin'')"
    by (simp add: demo_name) (simp add: demo_host_def)
  have ok: "open_w_error demo_host (fsys (demo_world 1)) [ustr ''out'', ustr ''TC001.gherkin''] = None"
    by (simp add: demo_host_def demo_world_def)
  from missing_content_writes_fallback[OF demo_read demo_build a _ t ok, of "ustr ''azure''"]
  show ?thesis by (simp add: failed_text_def)
qed

text \<open>
  C10. For every input string the extractor returns a string (no branch raises), and
  the string returned neither starts nor ends with whitespace.
\<close>

theorem extract_total_trimmed:
  "\<exists>r. extract_gherkin_code response = Inr r \<and> trimmed r"
  using find_sub_contains_index[of feature_tok response]
  by (auto simp: extract_gherkin_code_def Let_def strip_trimmed split: option.splits sum.splits)

theorem extract_total_trimmed_witness:
  "\<exists>r. extract_gherkin_code (ustr ''  Given a user  '') = Inr r \<and> trimmed r"
  by (rule extract_total_trimmed)

end
